theory Spec2Isabelle
  imports Complex_Main
begin

section \<open>Errors\<close>

text \<open>
  Every exception the Python code can raise is a value of \<open>error\<close>. The names follow the
  failure classes of the specification; the Python exception behind each is:
  \<^item> \<open>UnknownProfile\<close>: the \<^verbatim>\<open>KeyError\<close> of \<^verbatim>\<open>model_mapping[model_name]\<close>;
  \<^item> \<open>InvalidShape\<close>: the \<^verbatim>\<open>ValueError\<close> of a numpy \<^verbatim>\<open>reshape\<close> or \<^verbatim>\<open>transpose\<close> whose
    axes do not fit, the \<^verbatim>\<open>RuntimeError\<close> of a torch broadcast, padding or convolution
    whose extents do not fit, and the \<^verbatim>\<open>IndexError\<close> of an index beyond an extent;
  \<^item> \<open>NoCuda\<close>: the error of \<^verbatim>\<open>kernel.to('cuda')\<close> on a host without a CUDA device;
  \<^item> \<open>ZeroDivision\<close>: the \<^verbatim>\<open>ZeroDivisionError\<close> of a Python float division;
  \<^item> \<open>OutOfRange\<close>: the error torch raises for a Python integer that does not fit the
    machine integer it takes for a shift;
  \<^item> \<open>RequiresGrad\<close>: the \<^verbatim>\<open>RuntimeError\<close> of autograd, for a write into a leaf tensor that
    requires grad and for \<^verbatim>\<open>numpy()\<close> on a tensor that requires grad;
  \<^item> \<open>WrongDevice\<close>: the \<^verbatim>\<open>TypeError\<close> of \<^verbatim>\<open>numpy()\<close> on a tensor that is not on the CPU
    and the \<^verbatim>\<open>RuntimeError\<close> of a convolution whose input and weight are on two devices;
  \<^item> \<open>WrongType\<close>: the \<^verbatim>\<open>AttributeError\<close> or \<^verbatim>\<open>TypeError\<close> of a method called on an
    object of another type than the one it takes.
\<close>

datatype error =
  UnknownProfile | InvalidShape | NoCuda | ZeroDivision | OutOfRange | RequiresGrad |
  WrongDevice | WrongType

section \<open>Single-precision arithmetic\<close>

text \<open>
  The arrays of \<^verbatim>\<open>utils.py\<close> hold IEEE 754 binary32 numbers. A finite binary32 value is
  a real number, and an arithmetic operation returns the exact result rounded to the
  nearest binary32 value, ties to even. \<open>fl32\<close> is that rounding: the spacing of the
  binary32 grid around \<open>x\<close> is \<open>2 ^ (e - 23)\<close> for the binary exponent \<open>e\<close> of \<open>x\<close>, and
  \<open>2 ^ (- 149)\<close> in the subnormal range. Infinities and NaN are not values of the model
  (the specification leaves non-finite values to the caller), and \<open>fl32\<close> does not
  overflow: it is only a model of the hardware below \<open>2 ^ 128\<close>.
\<close>

definition round_even :: "real \<Rightarrow> int" where
  "round_even y =
     (let f = \<lfloor>y\<rfloor> in
      if y - of_int f < 1 / 2 then f
      else if 1 / 2 < y - of_int f then f + 1
      else if even f then f else f + 1)"

definition expo32 :: "real \<Rightarrow> int" where
  "expo32 x = max \<lfloor>log 2 \<bar>x\<bar>\<rfloor> (- 126)"

definition fl32 :: "real \<Rightarrow> real" where
  "fl32 x =
     (if x = 0 then 0
      else let q = 2 powi (expo32 x - 23) in of_int (round_even (x / q)) * q)"

section \<open>Double-precision arithmetic\<close>

text \<open>
  A Python \<^verbatim>\<open>float\<close> is an IEEE 754 binary64 number. \<open>fl64\<close> rounds a real to the nearest
  one, ties to even: 53 bits of significand, and a subnormal step of \<open>2 ^ (- 1074)\<close>, so
  that a product below half that step is \<open>0.0\<close>. As \<open>fl32\<close>, it does not overflow.
\<close>

definition expo64 :: "real \<Rightarrow> int" where
  "expo64 x = max \<lfloor>log 2 \<bar>x\<bar>\<rfloor> (- 1022)"

definition fl64 :: "real \<Rightarrow> real" where
  "fl64 x =
     (if x = 0 then 0
      else let q = 2 powi (expo64 x - 52) in of_int (round_even (x / q)) * q)"

section \<open>The class Utils\<close>

record Utils =
  mean :: "real list"
  stdv :: "real list"
  img_size :: nat
  model_name :: string

definition vgg19_param_init :: "Utils \<Rightarrow> Utils" where
  "vgg19_param_init self =
     self\<lparr>mean := map fl32 [485 / 1000, 456 / 1000, 406 / 1000],
          stdv := map fl32 [229 / 1000, 224 / 1000, 225 / 1000],
          img_size := 600\<rparr>"

definition model_mapping :: "(string \<times> (Utils \<Rightarrow> Utils)) list" where
  "model_mapping = [(''vgg19'', vgg19_param_init)]"

definition Utils_init :: "string \<Rightarrow> error + Utils" where
  "Utils_init name =
     (let self = \<lparr>mean = [], stdv = [], img_size = 0, model_name = name\<rparr> in
      case map_of model_mapping name of
        None \<Rightarrow> Inl UnknownProfile
      | Some init \<Rightarrow> Inr (init self))"

section \<open>Tensors and images\<close>

text \<open>
  An ImageTensor is a four-axis array (batch, channel, row, column). The record keeps the
  four extents, as \<^verbatim>\<open>tensor.shape\<close> does, next to the nested entries, so that an array
  with an empty axis still has its other extents. What torch keeps beside the entries of
  a tensor (its device, its gradient tracking) is in the record \<open>torch_tensor\<close> further
  down; the functions on \<open>tensor\<close> compute entries and extents. The entries are float32
  numbers, the dtype of the tensors and arrays \<^verbatim>\<open>utils.py\<close> builds; every arithmetic
  operation on them is rounded by \<open>fl32\<close>.
\<close>

record tensor =
  batch :: nat
  chans :: nat
  height :: nat
  width :: nat
  elems :: "real list list list list"

definition wf_tensor :: "tensor \<Rightarrow> bool" where
  "wf_tensor t \<longleftrightarrow>
     length (elems t) = batch t \<and>
     (\<forall>b \<in> set (elems t). length b = chans t \<and>
       (\<forall>c \<in> set b. length c = height t \<and>
         (\<forall>r \<in> set c. length r = width t)))"

text \<open>A PixelImage is the channel-last numpy array (row, column, channel).\<close>

record image =
  rows :: nat
  cols :: nat
  depth :: nat
  pixels :: "real list list list"

definition wf_image :: "image \<Rightarrow> bool" where
  "wf_image img \<longleftrightarrow>
     length (pixels img) = rows img \<and>
     (\<forall>r \<in> set (pixels img). length r = cols img \<and>
       (\<forall>px \<in> set r. length px = depth img))"

section \<open>Utils.clip\<close>

text \<open>\<^verbatim>\<open>torch.clamp(x, lo, hi)\<close> is \<open>min (max x lo) hi\<close>: it compares, it does not round.\<close>

definition clamp :: "real \<Rightarrow> real \<Rightarrow> real \<Rightarrow> real" where
  "clamp x lo hi = min (max x lo) hi"



section \<open>Utils.denormalize\<close>

text \<open>\<^verbatim>\<open>transpose(1, 2, 0)\<close> of a three-axis array: \<open>out[h][w][c] = chw[c][h][w]\<close>.\<close>

definition transpose_120 :: "nat \<Rightarrow> nat \<Rightarrow> nat \<Rightarrow> 'a list list list \<Rightarrow> 'a list list list" where
  "transpose_120 C H W chw =
     map (\<lambda>h. map (\<lambda>w. map (\<lambda>c. chw ! c ! h ! w) [0..<C]) [0..<W]) [0..<H]"

text \<open>
  \<^verbatim>\<open>squeeze(0)\<close> drops the batch axis when its extent is 1 and leaves the tensor as it is
  otherwise; it never raises. \<^verbatim>\<open>reshape((3, 1, 1))\<close> raises unless the profile has three
  entries. The product with the \<open>(3, 1, 1)\<close> array broadcasts over the channel axis, which
  must have extent 3 or 1. \<^verbatim>\<open>transpose(1, 2, 0)\<close> raises unless three axes are left.
  Product and sum are two float32 operations. These are the shapes and the entries; what
  the conversion to numpy asks of the tensor object (on the CPU, not requiring grad) is
  part of the call \<open>denormalize_ref\<close> further down.
\<close>

definition denormalize :: "Utils \<Rightarrow> tensor \<Rightarrow> error + image" where
  "denormalize self t =
     (if length (stdv self) \<noteq> 3 \<or> length (mean self) \<noteq> 3 then Inl InvalidShape
      else if chans t \<noteq> 3 \<and> chans t \<noteq> 1 then Inl InvalidShape
      else if batch t \<noteq> 1 then Inl InvalidShape
      else
        let chw = elems t ! 0;
            scaled = map (\<lambda>c. map (map (\<lambda>x. fl32 (fl32 (x * stdv self ! c) + mean self ! c)))
                                   (chw ! (if chans t = 1 then 0 else c))) [0..<3]
        in Inr \<lparr>rows = height t, cols = width t, depth = 3,
                pixels = transpose_120 3 (height t) (width t) scaled\<rparr>)"

section \<open>The normalisation of the codec\<close>

text \<open>
  Modelled from the spec: \<^verbatim>\<open>self.normalize\<close> is torchvision's \<^verbatim>\<open>T.Normalize\<close>, and the
  callers that turn a PixelImage into a channel-first tensor and add the batch axis are
  not in \<^verbatim>\<open>utils.py\<close>. The specification: per channel \<open>c\<close>,
  \<open>out[c] = (pixel[c] - mean[c]) / stdDev[c]\<close>, element-wise, batch axis added; an image
  whose channel count is not 3 is an \<open>InvalidShape\<close>. Difference and quotient are two
  float32 operations. (The name carries a suffix: \<open>normalize\<close> is a constant of HOL.)
\<close>

definition normalize_img :: "Utils \<Rightarrow> image \<Rightarrow> error + tensor" where
  "normalize_img self img =
     (if depth img \<noteq> 3 \<or> length (mean self) \<noteq> 3 \<or> length (stdv self) \<noteq> 3
      then Inl InvalidShape
      else Inr \<lparr>batch = 1, chans = 3, height = rows img, width = cols img,
                elems = [map (\<lambda>c. map (\<lambda>h. map (\<lambda>w.
                           fl32 (fl32 (pixels img ! h ! w ! c - mean self ! c) / stdv self ! c))
                         [0..<cols img]) [0..<rows img]) [0..<3]]\<rparr>)"

section \<open>Utils.random_circular_spatial_shift\<close>

text \<open>
  \<^verbatim>\<open>torch.roll\<close> along one axis moves the entry at index \<open>i\<close> to index
  \<open>(i + shift) mod n\<close>; an empty axis stays empty.
\<close>

definition roll :: "int \<Rightarrow> 'a list \<Rightarrow> 'a list" where
  "roll shift xs =
     (if xs = [] then xs else rotate (nat ((- shift) mod int (length xs))) xs)"



section \<open>The clip bounds\<close>




section \<open>Tensor objects and the store\<close>

text \<open>
  A \<^verbatim>\<open>torch.Tensor\<close> is more than its entries: it lives on a device, it may require grad,
  and it is a leaf of the autograd graph or the result of an operation.
\<close>

datatype device = Cuda | Cpu

record torch_tensor =
  data :: tensor
  device :: device
  requires_grad :: bool
  is_leaf :: bool









section \<open>The class CascadeGaussianSmoothing\<close>

text \<open>
  The module picks its device once: \<^verbatim>\<open>cuda\<close> when \<^verbatim>\<open>torch.cuda.is_available()\<close>, else
  \<^verbatim>\<open>cpu\<close>. Whether the host has a CUDA device is a parameter of the model.
\<close>

definition module_device :: "bool \<Rightarrow> device" where
  "module_device cuda_is_available = (if cuda_is_available then Cuda else Cpu)"

text \<open>
  The entries of the kernels and of the convolutions are written in exact arithmetic. How
  \<^verbatim>\<open>torch.exp\<close>, \<^verbatim>\<open>torch.sum\<close> and \<^verbatim>\<open>conv2d\<close> round, and in which order they accumulate,
  is fixed by the library build and not by \<^verbatim>\<open>utils.py\<close>; the theorems about the smoother
  are about extents and failures, which do not depend on it.

  One factor of the kernel: the Gaussian density with mean \<^verbatim>\<open>(size_1d - 1) / 2\<close> at a
  grid point.
\<close>

definition gaussian_1d :: "nat \<Rightarrow> real \<Rightarrow> nat \<Rightarrow> real" where
  "gaussian_1d size_1d std_1d x =
     (let mean = (real size_1d - 1) / 2
      in 1 / (std_1d * sqrt (2 * pi)) * exp (- (((real x - mean) / std_1d) ^ 2) / 2))"

text \<open>
  \<^verbatim>\<open>kernel = 1\<close>, then \<^verbatim>\<open>kernel *= ...\<close> once per axis over the two meshgrids
  (\<open>mgrid[i][j] = i\<close> for the first, \<open>j\<close> for the second).
\<close>

definition gaussian_kernel :: "nat \<Rightarrow> real \<times> real \<Rightarrow> real list list" where
  "gaussian_kernel k sigma =
     map (\<lambda>i. map (\<lambda>j. 1 * gaussian_1d k (fst sigma) i * gaussian_1d k (snd sigma) j)
                 [0..<k]) [0..<k]"

text \<open>
  \<^verbatim>\<open>kernel / torch.sum(kernel)\<close>, then \<^verbatim>\<open>view(1, 1, k, k)\<close> and \<^verbatim>\<open>repeat(3, 1, 1, 1)\<close>: a
  weight of extents \<open>(3, 1, k, k)\<close>, kept in a \<open>tensor\<close> record (\<open>batch\<close> is the first
  axis).
\<close>

definition prepare_kernel :: "nat \<Rightarrow> real list list \<Rightarrow> tensor" where
  "prepare_kernel k kern =
     \<lparr>batch = 3, chans = 1, height = k, width = k,
      elems = replicate 3 [map (map (\<lambda>x. x / sum_list (concat kern))) kern]\<rparr>"

record CascadeGaussianSmoothing =
  pad :: nat
  weight1 :: tensor
  weight2 :: tensor
  weight3 :: tensor

text \<open>
  \<open>sigma\<close> is a Python \<^verbatim>\<open>float\<close>, and so are the three standard deviations
  \<^verbatim>\<open>coeff * sigma\<close> and the divisor \<^verbatim>\<open>std_1d * math.sqrt(2 * math.pi)\<close>: each is rounded to
  binary64. The division \<^verbatim>\<open>1 / (std_1d * math.sqrt(2 * math.pi))\<close> raises when the divisor
  is \<open>0.0\<close>, which is so for \<open>sigma = 0\<close> and for the smallest positive \<^verbatim>\<open>float\<close>, whose
  half rounds to zero.
\<close>

definition sqrt_2pi :: real where
  "sqrt_2pi = fl64 (sqrt (fl64 (2 * fl64 pi)))"

definition cascade_sigmas :: "real \<Rightarrow> (real \<times> real) list" where
  "cascade_sigmas sigma =
     (let cascade_coefficients = [1 / 2, 1, 2]
      in map (\<lambda>coeff. (fl64 (coeff * sigma), fl64 (coeff * sigma))) cascade_coefficients)"

definition divisor_is_zero :: "real \<Rightarrow> bool" where
  "divisor_is_zero sigma \<longleftrightarrow>
     list_ex (\<lambda>s. fl64 (fst s * sqrt_2pi) = 0 \<or> fl64 (snd s * sqrt_2pi) = 0)
       (cascade_sigmas sigma)"

text \<open>
  The constructor. \<^verbatim>\<open>torch.arange\<close> raises on a negative size; the float division raises
  on a zero divisor; every kernel is moved to \<^verbatim>\<open>'cuda'\<close>, which raises on a host without a
  CUDA device. \<^verbatim>\<open>int(kernel_size / 2)\<close> is \<open>kernel_size div 2\<close> for the sizes that get past
  \<^verbatim>\<open>torch.arange\<close>.
\<close>

definition CascadeGaussianSmoothing_init ::
  "bool \<Rightarrow> int \<Rightarrow> real \<Rightarrow> error + CascadeGaussianSmoothing" where
  "CascadeGaussianSmoothing_init cuda_is_available kernel_size sigma =
     (let sigmas = cascade_sigmas sigma
      in if kernel_size < 0 then Inl InvalidShape
         else if divisor_is_zero sigma then Inl ZeroDivision
         else
           let k = nat kernel_size;
               kernels = map (gaussian_kernel k) sigmas;
               prepared_kernels = map (prepare_kernel k) kernels
           in if \<not> cuda_is_available then Inl NoCuda
              else Inr \<lparr>pad = nat (kernel_size div 2),
                        weight1 = prepared_kernels ! 0,
                        weight2 = prepared_kernels ! 1,
                        weight3 = prepared_kernels ! 2\<rparr>)"

text \<open>
  Reflect padding of one axis by \<open>p\<close> on both sides mirrors the entries next to the edge,
  without repeating the edge: \<open>[a, b, c, d]\<close> padded by 2 is \<open>[c, b, a, b, c, d, c, b]\<close>.
  torch raises unless \<open>p\<close> is less than the extent of the axis.
\<close>

definition reflect_pad :: "nat \<Rightarrow> 'a list \<Rightarrow> 'a list" where
  "reflect_pad p xs = rev (take p (tl xs)) @ xs @ take p (tl (rev xs))"

definition pad_reflect :: "nat \<Rightarrow> tensor \<Rightarrow> error + tensor" where
  "pad_reflect p t =
     (if chans t = 0 \<or> height t \<le> p \<or> width t \<le> p then Inl InvalidShape
      else Inr \<lparr>batch = batch t, chans = chans t,
                height = height t + 2 * p, width = width t + 2 * p,
                elems = map (map (\<lambda>ch. reflect_pad p (map (reflect_pad p) ch))) (elems t)\<rparr>)"

text \<open>
  \<^verbatim>\<open>conv2d\<close> with stride 1 and no padding of its own: the output entry at \<open>(i, j)\<close> is the
  sum over the window of input times weight. With \<open>groups\<close>, output channel \<open>o\<close> reads the
  input channels of its group. torch raises when the input channels are not
  \<open>groups\<close> times the weight's second extent, when the kernel is larger than the input,
  and when input and weight are on two devices.
\<close>

definition window_sum :: "real list list \<Rightarrow> real list list \<Rightarrow> nat \<Rightarrow> nat \<Rightarrow> real" where
  "window_sum w x i j =
     (\<Sum>a \<leftarrow> [0..<length w]. \<Sum>b \<leftarrow> [0..<length (w ! a)]. x ! (i + a) ! (j + b) * w ! a ! b)"

definition conv2d :: "device \<Rightarrow> tensor \<Rightarrow> device \<Rightarrow> tensor \<Rightarrow> nat \<Rightarrow> error + tensor" where
  "conv2d input_device input weight_device weight groups =
     (if groups = 0 \<or> batch weight mod groups \<noteq> 0 \<or> chans input \<noteq> groups * chans weight
      then Inl InvalidShape
      else if height input < height weight \<or> width input < width weight then Inl InvalidShape
      else if input_device \<noteq> weight_device then Inl WrongDevice
      else Inr \<lparr>batch = batch input, chans = batch weight,
                height = height input - height weight + 1,
                width = width input - width weight + 1,
                elems = map (\<lambda>x. map (\<lambda>out. map (\<lambda>i. map (\<lambda>j.
                    (\<Sum>ci \<leftarrow> [0..<chans weight].
                       window_sum (elems weight ! out ! ci)
                         (x ! (out div (batch weight div groups) * chans weight + ci)) i j))
                  [0..<width input - width weight + 1])
                  [0..<height input - height weight + 1])
                  [0..<batch weight]) (elems input)\<rparr>)"

text \<open>The element-wise sum of two tensors of the same extents.\<close>

definition add_tensor :: "tensor \<Rightarrow> tensor \<Rightarrow> tensor" where
  "add_tensor a b = a\<lparr>elems := map2 (map2 (map2 (map2 (+)))) (elems a) (elems b)\<rparr>"

text \<open>
  \<open>forward\<close> takes the input with the device it is on. The padding runs on that device;
  the weights are on \<^verbatim>\<open>cuda\<close>, where the constructor put them.
\<close>

definition forward :: "CascadeGaussianSmoothing \<Rightarrow> device \<Rightarrow> tensor \<Rightarrow> error + tensor" where
  "forward self input_device input =
     (case pad_reflect (pad self) input of
        Inl e \<Rightarrow> Inl e
      | Inr padded \<Rightarrow>
     (case conv2d input_device padded Cuda (weight1 self) 3 of
        Inl e \<Rightarrow> Inl e
      | Inr grad1 \<Rightarrow>
     (case conv2d input_device padded Cuda (weight2 self) 3 of
        Inl e \<Rightarrow> Inl e
      | Inr grad2 \<Rightarrow>
     (case conv2d input_device padded Cuda (weight3 self) 3 of
        Inl e \<Rightarrow> Inl e
      | Inr grad3 \<Rightarrow> Inr (add_tensor (add_tensor grad1 grad2) grad3)))))"

text \<open>Constructing a smoother and applying it once.\<close>

definition smooth :: "bool \<Rightarrow> int \<Rightarrow> real \<Rightarrow> device \<Rightarrow> tensor \<Rightarrow> error + tensor" where
  "smooth cuda_is_available kernel_size sigma input_device input =
     (case CascadeGaussianSmoothing_init cuda_is_available kernel_size sigma of
        Inl e \<Rightarrow> Inl e
      | Inr self \<Rightarrow> forward self input_device input)"

section \<open>Outside the model\<close>

text \<open>
  \<^verbatim>\<open>Utils.load_img\<close> and \<^verbatim>\<open>Utils.display_img\<close> read files, draw random numbers and open
  windows. \<^verbatim>\<open>Utils.gausian_blur\<close> is three calls of \<^verbatim>\<open>scipy.ndimage.gaussian_filter\<close>, whose
  code is not part of \<^verbatim>\<open>utils.py\<close>. None of them has a definition here.
\<close>

section \<open>The rounding error of a float32 operation\<close>

lemma round_even_err: "\<bar>of_int (round_even y) - y\<bar> \<le> 1 / 2"
  unfolding round_even_def Let_def
  by (auto simp: abs_if) linarith+

lemma expo32_le:
  assumes "x \<noteq> 0" "expo32 x = \<lfloor>log 2 \<bar>x\<bar>\<rfloor>"
  shows "2 powi (expo32 x) \<le> \<bar>x\<bar>"
proof -
  have "of_int (expo32 x) \<le> log 2 \<bar>x\<bar>" using assms by simp
  then have "2 powr (of_int (expo32 x)) \<le> 2 powr (log 2 \<bar>x\<bar>)" by simp
  also have "\<dots> = \<bar>x\<bar>" using assms by simp
  finally show ?thesis by (simp add: powr_real_of_int')
qed

lemma fl32_grid: "\<bar>fl32 x - x\<bar> \<le> 2 powi (expo32 x - 24)"
proof (cases "x = 0")
  case True then show ?thesis by (simp add: fl32_def)
next
  case False
  define q :: real where "q = 2 powi (expo32 x - 23)"
  have q: "0 < q" by (simp add: q_def)
  have "fl32 x - x = (of_int (round_even (x / q)) - x / q) * q"
    using False q by (simp add: fl32_def q_def Let_def algebra_simps)
  then have "\<bar>fl32 x - x\<bar> = \<bar>of_int (round_even (x / q)) - x / q\<bar> * q"
    using q by (simp add: abs_mult)
  also have "\<dots> \<le> (1 / 2) * q"
    using q round_even_err [of "x / q"] by (intro mult_right_mono) simp_all
  also have "\<dots> = 2 powi (expo32 x - 24)"
    by (simp add: q_def power_int_diff)
  finally show ?thesis .
qed

text \<open>One rounding errs by at most \<open>2 ^ (- 24)\<close> of the value, or half a subnormal step.\<close>

lemma fl32_err: "\<bar>fl32 x - x\<bar> \<le> \<bar>x\<bar> / 2 ^ 24 + 1 / 2 ^ 150"
proof (cases "x = 0")
  case True then show ?thesis by (simp add: fl32_def)
next
  case False
  show ?thesis
  proof (cases "expo32 x = \<lfloor>log 2 \<bar>x\<bar>\<rfloor>")
    case True
    have "(2::real) powi (expo32 x - 24) = 2 powi (expo32 x) / 2 ^ 24"
      by (simp add: power_int_diff)
    also have "\<dots> \<le> \<bar>x\<bar> / 2 ^ 24"
      using expo32_le [OF False True] by (simp add: divide_right_mono)
    finally show ?thesis using fl32_grid [of x] by simp
  next
    case False
    then have "expo32 x = - 126" by (simp add: expo32_def max_def split: if_splits)
    then have "(2::real) powi (expo32 x - 24) = 1 / 2 ^ 150"
      by (simp add: power_int_minus_divide)
    then show ?thesis using fl32_grid [of x] by simp
  qed
qed

text \<open>
  The exponent of a number is read off the powers of two around it, which makes \<open>fl32\<close>
  computable on a given rational: binary32 numbers are fixed points, and a number half way
  between two neighbours goes to the one with the even significand.
\<close>

lemma expo32_eq:
  assumes "2 powi e \<le> \<bar>x\<bar>" "\<bar>x\<bar> < 2 powi (e + 1)"
  shows "expo32 x = max e (- 126)"
proof -
  have "0 < (2::real) powi e" by simp
  then have x: "0 < \<bar>x\<bar>" using assms(1) by linarith
  have "\<lfloor>log 2 \<bar>x\<bar>\<rfloor> = e"
  proof (rule floor_unique)
    have "2 powr (of_int e) \<le> \<bar>x\<bar>" using assms(1) by (simp add: powr_real_of_int')
    then show "of_int e \<le> log 2 \<bar>x\<bar>" using x by (simp add: le_log_iff)
    have "\<bar>x\<bar> < 2 powr (of_int e + 1)"
      using assms(2) powr_real_of_int' [of 2 "e + 1"] by simp
    then show "log 2 \<bar>x\<bar> < of_int e + 1" using x by (simp add: log_less_iff)
  qed
  then show ?thesis by (simp add: expo32_def)
qed

lemma fl32_one: "fl32 1 = 1"
proof -
  have "expo32 1 = 0" using expo32_eq [of 0 1] by simp
  then show ?thesis by (simp add: fl32_def round_even_def power_int_minus_divide)
qed

lemma fl32_half: "fl32 (1 / 2) = 1 / 2"
proof -
  have "expo32 (1 / 2) = - 1" using expo32_eq [of "- 1" "1 / 2"] by (simp add: power_int_minus_divide)
  then show ?thesis by (simp add: fl32_def round_even_def power_int_minus_divide)
qed

lemma fl32_tie_even: "fl32 (1 + 1 / 2 ^ 24) = 1"
proof -
  have "expo32 (1 + 1 / 2 ^ 24) = 0" using expo32_eq [of 0 "1 + 1 / 2 ^ 24"] by simp
  then show ?thesis by (simp add: fl32_def round_even_def power_int_minus_divide)
qed

lemma fl32_tie_odd: "fl32 (1 + 3 / 2 ^ 24) = 1 + 1 / 2 ^ 22"
proof -
  have "expo32 (1 + 3 / 2 ^ 24) = 0" using expo32_eq [of 0 "1 + 3 / 2 ^ 24"] by simp
  then show ?thesis by (simp add: fl32_def round_even_def power_int_minus_divide)
qed

section \<open>The profile registry\<close>

text \<open>
  Claim C7. Constructing \<open>Utils\<close> for \<open>vgg19\<close> gives the channel means
  0.485, 0.456, 0.406 and the channel standard deviations 0.229, 0.224, 0.225, each as
  the float32 number the array stores, and the target size 600. Constructing it for
  \<open>unknown_model\<close>, or for any other identifier than \<open>vgg19\<close>, fails with
  \<open>UnknownProfile\<close>.
\<close>

theorem resolve_profile:
  "Utils_init ''vgg19'' =
     Inr \<lparr>mean = map fl32 [485 / 1000, 456 / 1000, 406 / 1000],
          stdv = map fl32 [229 / 1000, 224 / 1000, 225 / 1000],
          img_size = 600, model_name = ''vgg19''\<rparr>
   \<and> Utils_init ''unknown_model'' = Inl UnknownProfile
   \<and> (\<forall>name. name \<noteq> ''vgg19'' \<longrightarrow> Utils_init name = Inl UnknownProfile)"
  by (simp add: Utils_init_def model_mapping_def vgg19_param_init_def)

theorem resolve_profile_witness:
  "''resnet50'' \<noteq> ''vgg19'' \<and> Utils_init ''resnet50'' = Inl UnknownProfile"
proof -
  have h: "''resnet50'' \<noteq> ''vgg19''" by simp
  have "\<forall>name. name \<noteq> ''vgg19'' \<longrightarrow> Utils_init name = Inl UnknownProfile"
    using resolve_profile by (elim conjE)
  then have "''resnet50'' \<noteq> ''vgg19'' \<longrightarrow> Utils_init ''resnet50'' = Inl UnknownProfile"
    by (rule spec)
  then have "Utils_init ''resnet50'' = Inl UnknownProfile" using h by (rule mp)
  with h show ?thesis by (intro conjI)
qed

section \<open>The circular shift and its inverse\<close>







section \<open>The batch axis in denormalize\<close>




lemma wf_tensor_nth:
  assumes "wf_tensor t" "b < batch t" "c < chans t"
  shows "length (elems t ! b) = chans t" "length (elems t ! b ! c) = height t"
    "h < height t \<Longrightarrow> length (elems t ! b ! c ! h) = width t"
proof -
  have len: "length (elems t) = batch t"
    and all: "\<And>x. x \<in> set (elems t) \<Longrightarrow> length x = chans t \<and>
       (\<forall>c \<in> set x. length c = height t \<and> (\<forall>r \<in> set c. length r = width t))"
    using assms(1) by (simp_all add: wf_tensor_def)
  have b: "elems t ! b \<in> set (elems t)" using assms(2) len by simp
  show 1: "length (elems t ! b) = chans t" using all [OF b] by simp
  have c: "elems t ! b ! c \<in> set (elems t ! b)" using assms(3) 1 by simp
  have cc: "length (elems t ! b ! c) = height t \<and> (\<forall>r \<in> set (elems t ! b ! c). length r = width t)"
    using all [OF b] c by blast
  show 2: "length (elems t ! b ! c) = height t" using cc by simp
  assume "h < height t"
  with 2 have "elems t ! b ! c ! h \<in> set (elems t ! b ! c)" by simp
  with cc show "length (elems t ! b ! c ! h) = width t" by blast
qed

lemma transpose_120_nth:
  "h < H \<Longrightarrow> w < W \<Longrightarrow> c < C \<Longrightarrow> transpose_120 C H W chw ! h ! w ! c = chw ! c ! h ! w"
  by (simp add: transpose_120_def)

lemma wf_transpose_120:
  "wf_image \<lparr>rows = H, cols = W, depth = C, pixels = transpose_120 C H W chw\<rparr>"
  by (auto simp: wf_image_def transpose_120_def)




section \<open>Error bounds for the codec\<close>

lemma fl32_within:
  assumes "\<bar>x\<bar> \<le> B"
  shows "\<bar>fl32 x - x\<bar> \<le> B / 2 ^ 24 + 1 / 2 ^ 150"
proof -
  have "\<bar>x\<bar> / 2 ^ 24 \<le> B / 2 ^ 24" using assms by (simp add: divide_right_mono)
  with fl32_err [of x] show ?thesis by linarith
qed

lemma fl32_within4: "\<bar>x\<bar> \<le> 4 \<Longrightarrow> \<bar>fl32 x - x\<bar> \<le> 1 / 4000000"
  using fl32_within [of x 4] by simp

lemma fl32_within8: "\<bar>x\<bar> \<le> 8 \<Longrightarrow> \<bar>fl32 x - x\<bar> \<le> 1 / 2000000"
  using fl32_within [of x 8] by simp

lemma roundtrip_scalar:
  assumes m: "2 / 5 \<le> m" "m \<le> 1 / 2" and s: "11 / 50 \<le> s" "s \<le> 23 / 100"
    and x: "0 \<le> x" "x \<le> 1"
  shows "\<bar>fl32 (fl32 (fl32 (fl32 (x - m) / s) * s) + m) - x\<bar> \<le> 1 / 1000000"
proof -
  define y where "y = fl32 (x - m)"
  define z where "z = fl32 (y / s)"
  define w where "w = fl32 (z * s)"
  have s0: "0 < s" using s by simp
  have "\<bar>x - m\<bar> \<le> 4" using m x by linarith
  then have y: "\<bar>y - (x - m)\<bar> \<le> 1 / 4000000" unfolding y_def by (rule fl32_within4)
  have ya: "\<bar>y\<bar> \<le> 11 / 10" using y m x by linarith
  have "\<bar>y / s\<bar> = \<bar>y\<bar> / s" using s0 by simp
  also have "\<dots> \<le> (11 / 10) / s" using ya s0 by (intro divide_right_mono) simp_all
  also have "\<dots> \<le> (11 / 10) / (11 / 50)" using s s0 by (intro divide_left_mono) simp_all
  also have "\<dots> = 5" by simp
  finally have "\<bar>y / s\<bar> \<le> 5" .
  then have "\<bar>y / s\<bar> \<le> 8" by linarith
  then have z: "\<bar>z - y / s\<bar> \<le> 1 / 2000000" unfolding z_def by (rule fl32_within8)
  have "z * s - y = (z - y / s) * s" using s0 by (simp add: algebra_simps)
  then have "\<bar>z * s - y\<bar> = \<bar>z - y / s\<bar> * s" using s0 by (simp add: abs_mult)
  also have "\<dots> \<le> (1 / 2000000) * (23 / 100)"
    using z s s0 by (intro mult_mono) simp_all
  also have "\<dots> = 23 / 200000000" by simp
  finally have zs: "\<bar>z * s - y\<bar> \<le> 23 / 200000000" .
  have "\<bar>z * s\<bar> \<le> 4" using zs ya by linarith
  then have w: "\<bar>w - z * s\<bar> \<le> 1 / 4000000" unfolding w_def by (rule fl32_within4)
  have wa: "\<bar>w - (x - m)\<bar> \<le> 1 / 4000000 + 23 / 200000000 + 1 / 4000000"
    using w zs y by linarith
  have "\<bar>w + m\<bar> \<le> 4" using wa x by linarith
  then have "\<bar>fl32 (w + m) - (w + m)\<bar> \<le> 1 / 4000000" by (rule fl32_within4)
  with wa have "\<bar>fl32 (w + m) - x\<bar> \<le> 1 / 1000000" by linarith
  then show ?thesis by (simp add: w_def z_def y_def)
qed


lemma vgg_const:
  assumes "a \<le> c - 1 / 4000000" "c + 1 / 4000000 \<le> b" "\<bar>c\<bar> \<le> 4"
  shows "a \<le> fl32 c \<and> fl32 c \<le> b"
  using fl32_within4 [OF assms(3)] assms(1,2) by linarith

section \<open>The round trip of the codec\<close>

lemma vgg19_profile:
  assumes "Utils_init name = Inr self"
  shows "length (mean self) = 3" "length (stdv self) = 3"
    "c < 3 \<Longrightarrow> 2 / 5 \<le> mean self ! c \<and> mean self ! c \<le> 1 / 2"
    "c < 3 \<Longrightarrow> 11 / 50 \<le> stdv self ! c \<and> stdv self ! c \<le> 23 / 100"
proof -
  have self: "self = \<lparr>mean = [fl32 (485 / 1000), fl32 (456 / 1000), fl32 (406 / 1000)],
          stdv = [fl32 (229 / 1000), fl32 (224 / 1000), fl32 (225 / 1000)],
          img_size = 600, model_name = name\<rparr>"
    using assms
    by (simp add: Utils_init_def model_mapping_def vgg19_param_init_def split: if_splits)
  show "length (mean self) = 3" "length (stdv self) = 3" by (simp_all add: self)
  have m: "2 / 5 \<le> fl32 (485 / 1000) \<and> fl32 (485 / 1000) \<le> 1 / 2"
    "2 / 5 \<le> fl32 (456 / 1000) \<and> fl32 (456 / 1000) \<le> 1 / 2"
    "2 / 5 \<le> fl32 (406 / 1000) \<and> fl32 (406 / 1000) \<le> 1 / 2"
    by (rule vgg_const; simp)+
  have s: "11 / 50 \<le> fl32 (229 / 1000) \<and> fl32 (229 / 1000) \<le> 23 / 100"
    "11 / 50 \<le> fl32 (224 / 1000) \<and> fl32 (224 / 1000) \<le> 23 / 100"
    "11 / 50 \<le> fl32 (225 / 1000) \<and> fl32 (225 / 1000) \<le> 23 / 100"
    by (rule vgg_const; simp)+
  {
    assume "c < 3"
    then have c: "c = 0 \<or> c = 1 \<or> c = 2" by linarith
    from c m show "2 / 5 \<le> mean self ! c \<and> mean self ! c \<le> 1 / 2"
      by (auto simp: self)
    from c s show "11 / 50 \<le> stdv self ! c \<and> stdv self ! c \<le> 23 / 100"
      by (auto simp: self)
  }
qed


lemma denormalize_ok:
  assumes "length (stdv self) = 3" "length (mean self) = 3" "batch t = 1" "chans t = 3"
  shows "denormalize self t = Inr \<lparr>rows = height t, cols = width t, depth = 3,
      pixels = transpose_120 3 (height t) (width t)
        (map (\<lambda>c. map (map (\<lambda>x. fl32 (fl32 (x * stdv self ! c) + mean self ! c)))
                     (elems t ! 0 ! c)) [0..<3])\<rparr>"
  unfolding denormalize_def Let_def using assms by simp

lemma denormalize_pixel:
  assumes "wf_tensor t" "batch t = 1" "chans t = 3" "h < height t" "w < width t" "c < 3"
  shows "transpose_120 3 (height t) (width t)
        (map (\<lambda>c. map (map (\<lambda>x. fl32 (fl32 (x * stdv self ! c) + mean self ! c)))
                     (elems t ! 0 ! c)) [0..<3]) ! h ! w ! c
     = fl32 (fl32 (elems t ! 0 ! c ! h ! w * stdv self ! c) + mean self ! c)"
proof -
  have b: "0 < batch t" and c: "c < chans t" using assms by simp_all
  have l1: "length (elems t ! 0 ! c) = height t"
    using wf_tensor_nth(2) [OF assms(1) b c] .
  have l2: "length (elems t ! 0 ! c ! h) = width t"
    using wf_tensor_nth(3) [OF assms(1) b c assms(4)] .
  show ?thesis
    using assms(4-6) l1 l2 by (simp add: transpose_120_nth)
qed

lemma normalize_img_ok:
  assumes "length (stdv self) = 3" "length (mean self) = 3" "depth img = 3"
  shows "normalize_img self img = Inr \<lparr>batch = 1, chans = 3, height = rows img, width = cols img,
                elems = [map (\<lambda>c. map (\<lambda>h. map (\<lambda>w.
                           fl32 (fl32 (pixels img ! h ! w ! c - mean self ! c) / stdv self ! c))
                         [0..<cols img]) [0..<rows img]) [0..<3]]\<rparr>"
  unfolding normalize_img_def using assms by simp

text \<open>
  Beyond the unit interval the float32 numbers are further apart. The round trip of the
  pixel value 235 through the first channel, one rounding at a time:
\<close>

lemma fl32_eval:
  assumes "2 powi e \<le> \<bar>x\<bar>" "\<bar>x\<bar> < 2 powi (e + 1)" "- 126 \<le> e"
  shows "fl32 x = of_int (round_even (x / 2 powi (e - 23))) * 2 powi (e - 23)"
proof -
  have "0 < (2::real) powi e" by simp
  then have "0 < \<bar>x\<bar>" using assms(1) by linarith
  then have "x \<noteq> 0" by simp
  moreover have "expo32 x = e" using expo32_eq [OF assms(1,2)] assms(3) by simp
  ultimately show ?thesis by (simp add: fl32_def Let_def)
qed

lemma fl32_mean0: "fl32 (485 / 1000) = 16273900 / 2 ^ 25"
  using fl32_eval [of "- 2" "485 / 1000"]
  by (simp add: round_even_def power_int_minus_divide)

lemma fl32_stdv0: "fl32 (229 / 1000) = 15367930 / 2 ^ 26"
  using fl32_eval [of "- 3" "229 / 1000"]
  by (simp add: round_even_def power_int_minus_divide)

lemma fl32_step1: "fl32 (235 - 16273900 / 2 ^ 25) = 15369175 / 2 ^ 16"
  using fl32_eval [of 7 "235 - 16273900 / 2 ^ 25"]
  by (simp add: round_even_def power_int_minus_divide)

lemma fl32_step2: "fl32 ((15369175 / 2 ^ 16) / (15367930 / 2 ^ 26)) = 8389288 / 2 ^ 13"
  using fl32_eval [of 10 "(15369175 / 2 ^ 16) / (15367930 / 2 ^ 26)"]
  by (simp add: round_even_def power_int_minus_divide)

lemma fl32_step3: "fl32 ((8389288 / 2 ^ 13) * (15367930 / 2 ^ 26)) = 15369176 / 2 ^ 16"
  using fl32_eval [of 7 "(8389288 / 2 ^ 13) * (15367930 / 2 ^ 26)"]
  by (simp add: round_even_def power_int_minus_divide)

lemma fl32_step4: "fl32 (15369176 / 2 ^ 16 + 16273900 / 2 ^ 25) = 235 + 1 / 65536"
  using fl32_eval [of 7 "15369176 / 2 ^ 16 + 16273900 / 2 ^ 25"]
  by (simp add: round_even_def power_int_minus_divide)

lemma roundtrip_scalar_235:
  "fl32 (fl32 (fl32 (fl32 (235 - fl32 (485 / 1000)) / fl32 (229 / 1000)) * fl32 (229 / 1000))
         + fl32 (485 / 1000)) = 235 + 1 / 65536"
  by (simp only: fl32_mean0 fl32_stdv0 fl32_step1 fl32_step2 fl32_step3 fl32_step4)


text \<open>
  Claim C1 says that the round trip is within \<open>1e-5\<close> for every valid PixelImage. A value
  of 235 in the first channel comes back as \<open>235 + 2 ^ (- 16)\<close>: the float32 numbers
  next to 235 are \<open>2 ^ (- 16)\<close> apart, which is more than \<open>1e-5\<close>.
\<close>

theorem roundtrip_235_counterexample:
  "Utils_init ''vgg19'' =
     Inr (vgg19_param_init \<lparr>mean = [], stdv = [], img_size = 0, model_name = ''vgg19''\<rparr>)
   \<and> wf_image \<lparr>rows = 1, cols = 1, depth = 3, pixels = [[[235, 235, 235]]]\<rparr>
   \<and> (\<exists>t out.
         normalize_img (vgg19_param_init \<lparr>mean = [], stdv = [], img_size = 0, model_name = ''vgg19''\<rparr>)
           \<lparr>rows = 1, cols = 1, depth = 3, pixels = [[[235, 235, 235]]]\<rparr> = Inr t
       \<and> denormalize (vgg19_param_init \<lparr>mean = [], stdv = [], img_size = 0, model_name = ''vgg19''\<rparr>) t
           = Inr out
       \<and> pixels out ! 0 ! 0 ! 0 = 235 + 1 / 65536
       \<and> 1 / 100000 < \<bar>pixels out ! 0 ! 0 ! 0 - 235\<bar>)"
proof -
  let ?v = "vgg19_param_init \<lparr>mean = [], stdv = [], img_size = 0, model_name = ''vgg19''\<rparr>"
  let ?i = "\<lparr>rows = 1, cols = 1, depth = 3, pixels = [[[235, 235, 235 :: real]]]\<rparr>"
  have h1: "Utils_init ''vgg19'' = Inr ?v"
    by (simp add: Utils_init_def model_mapping_def)
  have h2: "wf_image ?i" by (simp add: wf_image_def)
  have v: "length (stdv ?v) = 3" "length (mean ?v) = 3"
    "mean ?v ! 0 = fl32 (485 / 1000)" "stdv ?v ! 0 = fl32 (229 / 1000)"
    by (simp_all add: vgg19_param_init_def)
  define t where "t = \<lparr>batch = 1, chans = 3, height = rows ?i, width = cols ?i,
                elems = [map (\<lambda>c. map (\<lambda>h. map (\<lambda>w.
                           fl32 (fl32 (pixels ?i ! h ! w ! c - mean ?v ! c) / stdv ?v ! c))
                         [0..<cols ?i]) [0..<rows ?i]) [0..<3]]\<rparr>"
  define out where "out = \<lparr>rows = height t, cols = width t, depth = 3,
      pixels = transpose_120 3 (height t) (width t)
        (map (\<lambda>c. map (map (\<lambda>x. fl32 (fl32 (x * stdv ?v ! c) + mean ?v ! c)))
                     (elems t ! 0 ! c)) [0..<3])\<rparr>"
  have dims: "batch t = 1" "chans t = 3" "height t = 1" "width t = 1"
    by (simp_all add: t_def)
  have wf: "wf_tensor t" by (auto simp: wf_tensor_def t_def)
  have n: "normalize_img ?v ?i = Inr t"
    unfolding t_def using v(1,2) by (intro normalize_img_ok) simp_all
  have d: "denormalize ?v t = Inr out"
    unfolding out_def using v(1,2) dims by (intro denormalize_ok) simp_all
  have te: "elems t ! 0 ! 0 ! 0 ! 0 = fl32 (fl32 (235 - mean ?v ! 0) / stdv ?v ! 0)"
    by (simp add: t_def)
  have "pixels out ! 0 ! 0 ! 0 =
      fl32 (fl32 (elems t ! 0 ! 0 ! 0 ! 0 * stdv ?v ! 0) + mean ?v ! 0)"
    unfolding out_def using denormalize_pixel [OF wf dims(1,2), of 0 0 0 ?v] dims by simp
  then have "pixels out ! 0 ! 0 ! 0 =
      fl32 (fl32 (fl32 (fl32 (235 - fl32 (485 / 1000)) / fl32 (229 / 1000)) * fl32 (229 / 1000))
            + fl32 (485 / 1000))"
    by (simp only: te v(3,4))
  then have p: "pixels out ! 0 ! 0 ! 0 = 235 + 1 / 65536" by (simp only: roundtrip_scalar_235)
  then have q: "1 / 100000 < \<bar>pixels out ! 0 ! 0 ! 0 - 235\<bar>" by simp
  from n d p q have "\<exists>t out. normalize_img ?v ?i = Inr t \<and> denormalize ?v t = Inr out
       \<and> pixels out ! 0 ! 0 ! 0 = 235 + 1 / 65536
       \<and> 1 / 100000 < \<bar>pixels out ! 0 ! 0 ! 0 - 235\<bar>"
    by (intro exI [of _ t] exI [of _ out] conjI)
  with h1 h2 show ?thesis by (intro conjI)
qed

text \<open>
  Claim C1, amended. For the profile of the registry and every PixelImage with three
  channels and pixel values in \<open>[0, 1]\<close> (the range \<^verbatim>\<open>utils.py\<close> works in: it multiplies
  by 255 when it saves an image), normalising the image and denormalising the result
  succeeds and gives an image of the same extents whose every entry is within \<open>1e-5\<close> of
  the entry of the input, in float32 arithmetic.
\<close>

theorem denormalize_normalize:
  assumes "Utils_init name = Inr self" "wf_image img" "depth img = 3"
    and "\<forall>h < rows img. \<forall>w < cols img. \<forall>c < 3.
           0 \<le> pixels img ! h ! w ! c \<and> pixels img ! h ! w ! c \<le> 1"
  shows "\<exists>t out. normalize_img self img = Inr t \<and> denormalize self t = Inr out \<and>
     rows out = rows img \<and> cols out = cols img \<and> depth out = 3 \<and> wf_image out \<and>
     (\<forall>h < rows img. \<forall>w < cols img. \<forall>c < 3.
        \<bar>pixels out ! h ! w ! c - pixels img ! h ! w ! c\<bar> \<le> 1 / 100000)"
proof -
  note p = vgg19_profile [OF assms(1)]
  define t where "t = \<lparr>batch = 1, chans = 3, height = rows img, width = cols img,
                elems = [map (\<lambda>c. map (\<lambda>h. map (\<lambda>w.
                           fl32 (fl32 (pixels img ! h ! w ! c - mean self ! c) / stdv self ! c))
                         [0..<cols img]) [0..<rows img]) [0..<3]]\<rparr>"
  define out where "out = \<lparr>rows = height t, cols = width t, depth = 3,
      pixels = transpose_120 3 (height t) (width t)
        (map (\<lambda>c. map (map (\<lambda>x. fl32 (fl32 (x * stdv self ! c) + mean self ! c)))
                     (elems t ! 0 ! c)) [0..<3])\<rparr>"
  have dims: "batch t = 1" "chans t = 3" "height t = rows img" "width t = cols img"
    by (simp_all add: t_def)
  have wf: "wf_tensor t" by (auto simp: wf_tensor_def t_def)
  have n: "normalize_img self img = Inr t"
    unfolding t_def using p(1,2) assms(3) by (intro normalize_img_ok) simp_all
  have d: "denormalize self t = Inr out"
    unfolding out_def using p(1,2) dims by (intro denormalize_ok) simp_all
  have o: "rows out = rows img" "cols out = cols img" "depth out = 3"
    by (simp_all add: out_def dims)
  have wfo: "wf_image out"
    unfolding out_def by (rule wf_transpose_120)
  have e: "\<bar>pixels out ! h ! w ! c - pixels img ! h ! w ! c\<bar> \<le> 1 / 100000"
    if h: "h < rows img" and w: "w < cols img" and c: "c < 3" for h w c
  proof -
    let ?x = "pixels img ! h ! w ! c"
    have x: "0 \<le> ?x" "?x \<le> 1" using assms(4) h w c by simp_all
    have te: "elems t ! 0 ! c ! h ! w = fl32 (fl32 (?x - mean self ! c) / stdv self ! c)"
      using h w c by (simp add: t_def)
    have "pixels out ! h ! w ! c =
        fl32 (fl32 (elems t ! 0 ! c ! h ! w * stdv self ! c) + mean self ! c)"
      unfolding out_def using denormalize_pixel [OF wf dims(1,2), of h w c self] h w c dims
      by simp
    then have "pixels out ! h ! w ! c =
        fl32 (fl32 (fl32 (fl32 (?x - mean self ! c) / stdv self ! c) * stdv self ! c)
              + mean self ! c)"
      by (simp only: te)
    moreover have "\<bar>fl32 (fl32 (fl32 (fl32 (?x - mean self ! c) / stdv self ! c) * stdv self ! c)
              + mean self ! c) - ?x\<bar> \<le> 1 / 1000000"
      using p(3) [OF c] p(4) [OF c] x by (intro roundtrip_scalar) simp_all
    ultimately show ?thesis by linarith
  qed
  from n d o wfo e show ?thesis by blast
qed

theorem denormalize_normalize_witness:
  "Utils_init ''vgg19'' =
     Inr (vgg19_param_init \<lparr>mean = [], stdv = [], img_size = 0, model_name = ''vgg19''\<rparr>)
   \<and> wf_image \<lparr>rows = 1, cols = 1, depth = 3, pixels = [[[0, 1 / 2, 1]]]\<rparr>
   \<and> depth \<lparr>rows = 1, cols = 1, depth = 3, pixels = [[[0, 1 / 2, 1]]]\<rparr> = 3
   \<and> (\<exists>t out.
         normalize_img (vgg19_param_init \<lparr>mean = [], stdv = [], img_size = 0, model_name = ''vgg19''\<rparr>)
           \<lparr>rows = 1, cols = 1, depth = 3, pixels = [[[0, 1 / 2, 1]]]\<rparr> = Inr t
       \<and> denormalize (vgg19_param_init \<lparr>mean = [], stdv = [], img_size = 0, model_name = ''vgg19''\<rparr>) t
           = Inr out
       \<and> \<bar>pixels out ! 0 ! 0 ! 0 - 0\<bar> \<le> 1 / 100000
       \<and> \<bar>pixels out ! 0 ! 0 ! 1 - 1 / 2\<bar> \<le> 1 / 100000
       \<and> \<bar>pixels out ! 0 ! 0 ! 2 - 1\<bar> \<le> 1 / 100000)"
proof -
  let ?v = "vgg19_param_init \<lparr>mean = [], stdv = [], img_size = 0, model_name = ''vgg19''\<rparr>"
  let ?i = "\<lparr>rows = 1, cols = 1, depth = 3, pixels = [[[0, 1 / 2, 1 :: real]]]\<rparr>"
  have h1: "Utils_init ''vgg19'' = Inr ?v"
    by (simp add: Utils_init_def model_mapping_def)
  have h2: "wf_image ?i" by (simp add: wf_image_def)
  have h3: "depth ?i = 3" by simp
  have h4: "\<forall>h < rows ?i. \<forall>w < cols ?i. \<forall>c < 3.
           0 \<le> pixels ?i ! h ! w ! c \<and> pixels ?i ! h ! w ! c \<le> 1"
    by (simp add: numeral_3_eq_3 less_Suc_eq)
  from denormalize_normalize [OF h1 h2 h3 h4]
  obtain t out where r: "normalize_img ?v ?i = Inr t" "denormalize ?v t = Inr out"
    "\<forall>h < rows ?i. \<forall>w < cols ?i. \<forall>c < 3.
        \<bar>pixels out ! h ! w ! c - pixels ?i ! h ! w ! c\<bar> \<le> 1 / 100000"
    by blast
  have "\<bar>pixels out ! 0 ! 0 ! 0 - 0\<bar> \<le> 1 / 100000"
    using r(3) [rule_format, of 0 0 0] by simp
  moreover have "\<bar>pixels out ! 0 ! 0 ! 1 - 1 / 2\<bar> \<le> 1 / 100000"
    using r(3) [rule_format, of 0 0 1] by simp
  moreover have "\<bar>pixels out ! 0 ! 0 ! 2 - 1\<bar> \<le> 1 / 100000"
    using r(3) [rule_format, of 0 0 2] by simp
  ultimately have e: "\<bar>pixels out ! 0 ! 0 ! 0 - 0\<bar> \<le> 1 / 100000
       \<and> \<bar>pixels out ! 0 ! 0 ! 1 - 1 / 2\<bar> \<le> 1 / 100000
       \<and> \<bar>pixels out ! 0 ! 0 ! 2 - 1\<bar> \<le> 1 / 100000" by (intro conjI)
  from r(1,2) e have "\<exists>t out. normalize_img ?v ?i = Inr t \<and> denormalize ?v t = Inr out
       \<and> \<bar>pixels out ! 0 ! 0 ! 0 - 0\<bar> \<le> 1 / 100000
       \<and> \<bar>pixels out ! 0 ! 0 ! 1 - 1 / 2\<bar> \<le> 1 / 100000
       \<and> \<bar>pixels out ! 0 ! 0 ! 2 - 1\<bar> \<le> 1 / 100000"
    by (intro exI [of _ t] exI [of _ out] conjI) simp_all
  with h1 h2 h3 show ?thesis by (intro conjI)
qed

section \<open>Clipping\<close>









section \<open>The rounding of a Python float\<close>

lemma round_even_floor: "\<lfloor>y\<rfloor> \<le> round_even y" "round_even y \<le> \<lfloor>y\<rfloor> + 1"
  by (simp_all add: round_even_def Let_def)

lemma round_even_zero_iff: "round_even z = 0 \<longleftrightarrow> \<bar>z\<bar> \<le> 1 / 2"
proof -
  have f: "of_int \<lfloor>z\<rfloor> \<le> z" "z < of_int \<lfloor>z\<rfloor> + 1" by linarith+
  consider "\<lfloor>z\<rfloor> = 0" | "\<lfloor>z\<rfloor> = - 1" | "\<lfloor>z\<rfloor> \<le> - 2" | "1 \<le> \<lfloor>z\<rfloor>" by linarith
  then show ?thesis
  proof cases
    case 1
    with f have z: "0 \<le> z" "z < 1" by simp_all
    have "round_even z = (if z < 1 / 2 then 0 else if 1 / 2 < z then 1 else 0)"
      by (simp add: round_even_def 1 Let_def)
    then have "round_even z = 0 \<longleftrightarrow> z \<le> 1 / 2" by (simp split: if_splits)
    then show ?thesis using z by (simp add: abs_if)
  next
    case 2
    with f have z: "- 1 \<le> z" "z < 0" by simp_all
    have "round_even z = (if z + 1 < 1 / 2 then - 1 else if 1 / 2 < z + 1 then 0 else 0)"
      by (simp add: round_even_def 2 Let_def)
    then have "round_even z = 0 \<longleftrightarrow> - (1 / 2) \<le> z" by (simp split: if_splits)
    then show ?thesis using z by (auto simp: abs_if)
  next
    case 3
    then have "of_int \<lfloor>z\<rfloor> \<le> (- 2 :: real)" by linarith
    with f have "z < - 1" by linarith
    moreover have "round_even z \<noteq> 0"
      using 3 round_even_floor(2) [of z] by linarith
    ultimately show ?thesis by (simp add: abs_if)
  next
    case 4
    then have "(1 :: real) \<le> of_int \<lfloor>z\<rfloor>" by linarith
    with f have "1 \<le> z" by linarith
    moreover have "round_even z \<noteq> 0"
      using 4 round_even_floor(1) [of z] by linarith
    ultimately show ?thesis by (simp add: abs_if)
  qed
qed

lemma round_even_ge: "of_int n \<le> y \<Longrightarrow> n \<le> round_even y"
proof -
  assume "of_int n \<le> y"
  then have "n \<le> \<lfloor>y\<rfloor>" by (simp add: le_floor_iff)
  then show ?thesis unfolding round_even_def Let_def by auto
qed

lemma expo64_le:
  assumes "x \<noteq> 0" "expo64 x = \<lfloor>log 2 \<bar>x\<bar>\<rfloor>"
  shows "2 powi (expo64 x) \<le> \<bar>x\<bar>"
proof -
  have "of_int (expo64 x) \<le> log 2 \<bar>x\<bar>" using assms by simp
  then have "2 powr (of_int (expo64 x)) \<le> 2 powr (log 2 \<bar>x\<bar>)" by simp
  also have "\<dots> = \<bar>x\<bar>" using assms by simp
  finally show ?thesis by (simp add: powr_real_of_int')
qed

lemma expo64_cases: "expo64 x = - 1022 \<or> (expo64 x = \<lfloor>log 2 \<bar>x\<bar>\<rfloor> \<and> - 1022 < expo64 x)"
  by (auto simp: expo64_def max_def)

lemma fl64_zero_iff: "fl64 x = 0 \<longleftrightarrow> \<bar>x\<bar> \<le> 1 / 2 ^ 1075"
proof (cases "x = 0")
  case True then show ?thesis by (simp add: fl64_def)
next
  case False
  define q :: real where "q = 2 powi (expo64 x - 52)"
  have q: "0 < q" by (simp add: q_def)
  have "fl64 x = of_int (round_even (x / q)) * q"
    using False by (simp add: fl64_def q_def Let_def)
  then have "fl64 x = 0 \<longleftrightarrow> round_even (x / q) = 0" using q by simp
  also have "\<dots> \<longleftrightarrow> \<bar>x / q\<bar> \<le> 1 / 2" by (rule round_even_zero_iff)
  also have "\<dots> \<longleftrightarrow> \<bar>x\<bar> \<le> q / 2" using q by (simp add: field_simps)
  also have "\<dots> \<longleftrightarrow> \<bar>x\<bar> \<le> 1 / 2 ^ 1075"
  proof (cases "expo64 x = - 1022")
    case True
    have "q = 1 / 2 ^ 1074" by (simp add: q_def True power_int_minus_divide)
    then have "q / 2 = 1 / 2 ^ 1075" by simp
    then show ?thesis by (simp only:)
  next
    case F: False
    with expo64_cases [of x] have e: "expo64 x = \<lfloor>log 2 \<bar>x\<bar>\<rfloor>" "- 1022 < expo64 x" by auto
    have le: "2 powi (expo64 x) \<le> \<bar>x\<bar>" using expo64_le [OF False e(1)] .
    have "q / 2 < 2 powi (expo64 x)"
    proof -
      define w :: real where "w = 2 powi (expo64 x)"
      have "q = w / 2 ^ 52" by (simp add: q_def w_def power_int_diff)
      then have "q / 2 = w / 2 ^ 53" by simp
      moreover have "0 < w" by (simp add: w_def)
      moreover have "w / 2 ^ 53 < w" using \<open>0 < w\<close> by simp
      ultimately show ?thesis unfolding w_def by linarith
    qed
    with le have 1: "\<not> \<bar>x\<bar> \<le> q / 2" by linarith
    have "(2::real) powi (- 1021) \<le> 2 powi (expo64 x)"
      using e(2) by (intro power_int_increasing) simp_all
    moreover have "(1::real) / 2 ^ 1075 < 2 powi (- 1021)"
      by (simp add: power_int_minus_divide)
    ultimately have 2: "\<not> \<bar>x\<bar> \<le> 1 / 2 ^ 1075" using le by linarith
    from 1 2 show ?thesis by simp
  qed
  finally show ?thesis .
qed

lemma fl64_nonzero_ge:
  assumes "fl64 x \<noteq> 0"
  shows "1 / 2 ^ 1074 \<le> \<bar>fl64 x\<bar>"
proof -
  have x: "x \<noteq> 0" using assms by (auto simp: fl64_def)
  define q :: real where "q = 2 powi (expo64 x - 52)"
  have q: "0 < q" by (simp add: q_def)
  have v: "fl64 x = of_int (round_even (x / q)) * q"
    using x by (simp add: fl64_def q_def Let_def)
  with assms have "round_even (x / q) \<noteq> 0" by auto
  then have "1 \<le> \<bar>round_even (x / q)\<bar>" by linarith
  then have "(1::real) \<le> \<bar>of_int (round_even (x / q))\<bar>" by linarith
  then have "1 * q \<le> \<bar>of_int (round_even (x / q))\<bar> * q"
    using q by (intro mult_right_mono) simp_all
  then have a: "q \<le> \<bar>fl64 x\<bar>" using q by (simp add: v abs_mult)
  have "- 1022 \<le> expo64 x" by (simp add: expo64_def)
  then have "(2::real) powi (- 1074) \<le> 2 powi (expo64 x - 52)"
    by (intro power_int_increasing) simp_all
  moreover have "(2::real) powi (- 1074) = 1 / 2 ^ 1074"
    by (simp add: power_int_minus_divide)
  ultimately have "1 / 2 ^ 1074 \<le> q" by (simp only: q_def)
  with a show ?thesis by linarith
qed

lemma fl64_ge_one:
  assumes "1 \<le> x"
  shows "1 \<le> fl64 x"
proof -
  have x: "x \<noteq> 0" using assms by auto
  define q :: real where "q = 2 powi (expo64 x - 52)"
  have q: "0 < q" by (simp add: q_def)
  have v: "fl64 x = of_int (round_even (x / q)) * q"
    using x by (simp add: fl64_def q_def Let_def)
  have "0 \<le> log 2 \<bar>x\<bar>" using assms by simp
  then have "0 \<le> \<lfloor>log 2 \<bar>x\<bar>\<rfloor>" by simp
  then have e: "0 \<le> expo64 x" by (simp add: expo64_def)
  define n :: nat where "n = nat (52 - expo64 x)"
  show ?thesis
  proof (cases "expo64 x \<le> 52")
    case True
    then have "expo64 x - 52 = - int n" by (simp add: n_def)
    then have qn: "q = 1 / 2 ^ n" by (simp add: q_def power_int_minus_divide)
    have "of_int (2 ^ n) \<le> x / q" using assms by (simp add: qn)
    then have "2 ^ n \<le> round_even (x / q)" by (rule round_even_ge)
    then have "(2::real) ^ n \<le> of_int (round_even (x / q))"
      by (metis of_int_le_iff of_int_numeral of_int_power)
    then have "2 ^ n * q \<le> of_int (round_even (x / q)) * q"
      using q by (intro mult_right_mono) simp_all
    then show ?thesis by (simp add: v qn)
  next
    case False
    then have "0 \<le> expo64 x - 52" by simp
    then have "(2::real) powi 0 \<le> 2 powi (expo64 x - 52)"
      by (intro power_int_increasing) simp_all
    then have q1: "1 \<le> q" by (simp add: q_def)
    have "of_int 1 \<le> x / q" using assms q q1
    proof -
      have "x \<noteq> 0" by (rule x)
      have le: "2 powi (expo64 x) \<le> \<bar>x\<bar>"
      proof -
        have "expo64 x = \<lfloor>log 2 \<bar>x\<bar>\<rfloor>" using False expo64_cases [of x] by auto
        then show ?thesis by (rule expo64_le [OF x])
      qed
      have "q \<le> 2 powi (expo64 x)" unfolding q_def
        by (intro power_int_increasing) simp_all
      with le assms have "q \<le> x" by linarith
      then show ?thesis using q by (simp add: field_simps)
    qed
    then have "1 \<le> round_even (x / q)" by (rule round_even_ge)
    then have "(1::real) \<le> of_int (round_even (x / q))" by linarith
    then have "1 * 1 \<le> of_int (round_even (x / q)) * q"
      using q1 by (intro mult_mono) simp_all
    then show ?thesis by (simp add: v)
  qed
qed

lemma sqrt_2pi_ge_one: "1 \<le> sqrt_2pi"
proof -
  have "1 \<le> pi" using pi_ge_two by simp
  then have "1 \<le> 2 * fl64 pi" using fl64_ge_one [of pi] by linarith
  then have "1 \<le> fl64 (2 * fl64 pi)" by (rule fl64_ge_one)
  then have "1 \<le> sqrt (fl64 (2 * fl64 pi))" by simp
  then show ?thesis unfolding sqrt_2pi_def by (rule fl64_ge_one)
qed

lemma fl64_abs_le:
  assumes "\<bar>x\<bar> \<le> 1 / 2 ^ 1074"
  shows "\<bar>fl64 x\<bar> \<le> 1 / 2 ^ 1074"
proof (cases "x = 0")
  case True then show ?thesis by (simp add: fl64_def)
next
  case False
  define q :: real where "q = 2 powi (expo64 x - 52)"
  have "expo64 x = - 1022"
  proof (rule ccontr)
    assume "expo64 x \<noteq> - 1022"
    with expo64_cases [of x] have e: "expo64 x = \<lfloor>log 2 \<bar>x\<bar>\<rfloor>" "- 1022 < expo64 x" by auto
    have le: "2 powi (expo64 x) \<le> \<bar>x\<bar>" using expo64_le [OF False e(1)] .
    have "(2::real) powi (- 1021) \<le> 2 powi (expo64 x)"
      using e(2) by (intro power_int_increasing) simp_all
    moreover have "(1::real) / 2 ^ 1074 < 2 powi (- 1021)"
      by (simp add: power_int_minus_divide)
    ultimately show False using le assms by linarith
  qed
  then have qv: "q = 1 / 2 ^ 1074" by (simp add: q_def power_int_minus_divide)
  have v: "fl64 x = of_int (round_even (x / q)) * q"
    using False by (simp add: fl64_def q_def Let_def)
  have q: "0 < q" by (simp add: q_def)
  have "\<bar>x\<bar> \<le> q" using assms by (simp only: qv)
  then have "x \<le> q" "- q \<le> x" by linarith+
  then have "x / q \<le> of_int 1" "of_int (- 1) \<le> x / q" using q by (simp_all add: field_simps)
  have up: "round_even (x / q) \<le> 1"
  proof -
    have "\<lfloor>x / q\<rfloor> \<le> 1" using \<open>x / q \<le> of_int 1\<close> by (simp add: floor_le_iff)
    have f: "of_int \<lfloor>x / q\<rfloor> \<le> x / q" by linarith
    show ?thesis
    proof (cases "\<lfloor>x / q\<rfloor> = 1")
      case True
      with f \<open>x / q \<le> of_int 1\<close> have "x / q - of_int \<lfloor>x / q\<rfloor> = 0" by simp
      then show ?thesis using True by (simp add: round_even_def Let_def)
    next
      case False
      with \<open>\<lfloor>x / q\<rfloor> \<le> 1\<close> have "\<lfloor>x / q\<rfloor> \<le> 0" by linarith
      then show ?thesis unfolding round_even_def Let_def by auto
    qed
  qed
  have lo: "- 1 \<le> round_even (x / q)" using \<open>of_int (- 1) \<le> x / q\<close> by (rule round_even_ge)
  from up lo have "\<bar>round_even (x / q)\<bar> \<le> 1" by linarith
  then have "\<bar>of_int (round_even (x / q)) :: real\<bar> \<le> 1" by linarith
  then have "\<bar>of_int (round_even (x / q))\<bar> * q \<le> 1 * q"
    using q by (intro mult_right_mono) simp_all
  then have "\<bar>fl64 x\<bar> \<le> q" using q by (simp add: v abs_mult)
  then show ?thesis by (simp only: qv)
qed


lemma fl64_grid: "\<bar>fl64 x - x\<bar> \<le> 2 powi (expo64 x - 53)"
proof (cases "x = 0")
  case True then show ?thesis by (simp add: fl64_def)
next
  case False
  define q :: real where "q = 2 powi (expo64 x - 52)"
  have q: "0 < q" by (simp add: q_def)
  have "fl64 x - x = (of_int (round_even (x / q)) - x / q) * q"
    using False q by (simp add: fl64_def q_def Let_def algebra_simps)
  then have "\<bar>fl64 x - x\<bar> = \<bar>of_int (round_even (x / q)) - x / q\<bar> * q"
    using q by (simp add: abs_mult)
  also have "\<dots> \<le> (1 / 2) * q"
    using q round_even_err [of "x / q"] by (intro mult_right_mono) simp_all
  also have "\<dots> = 2 powi (expo64 x - 53)"
    by (simp add: q_def power_int_diff)
  finally show ?thesis .
qed

lemma fl64_err: "\<bar>fl64 x - x\<bar> \<le> \<bar>x\<bar> / 2 ^ 53 + 1 / 2 ^ 1075"
proof (cases "x = 0")
  case True then show ?thesis by (simp add: fl64_def)
next
  case False
  show ?thesis
  proof (cases "expo64 x = \<lfloor>log 2 \<bar>x\<bar>\<rfloor>")
    case True
    have "(2::real) powi (expo64 x - 53) = 2 powi (expo64 x) / 2 ^ 53"
      by (simp add: power_int_diff)
    also have "\<dots> \<le> \<bar>x\<bar> / 2 ^ 53"
      using expo64_le [OF False True] by (simp add: divide_right_mono)
    finally show ?thesis using fl64_grid [of x] by simp
  next
    case False
    then have "expo64 x = - 1022" by (simp add: expo64_def max_def split: if_splits)
    then have "(2::real) powi (expo64 x - 53) = 1 / 2 ^ 1075"
      by (simp add: power_int_minus_divide)
    then show ?thesis using fl64_grid [of x] by simp
  qed
qed

lemma divisor_zero_iff:
  "fl64 (fl64 y * sqrt_2pi) = 0 \<longleftrightarrow> \<bar>y\<bar> \<le> 1 / 2 ^ 1075"
proof (cases "fl64 y = 0")
  case True
  then show ?thesis using fl64_zero_iff [of y] by (simp add: fl64_def)
next
  case False
  define a :: real where "a = 1 / 2 ^ 1075"
  have a: "0 < a" "1 / 2 ^ 1074 = 2 * a" by (simp_all add: a_def)
  have "2 * a \<le> \<bar>fl64 y\<bar>" using fl64_nonzero_ge [OF False] a(2) by simp
  moreover have "\<bar>fl64 y\<bar> * 1 \<le> \<bar>fl64 y\<bar> * sqrt_2pi"
    using sqrt_2pi_ge_one by (intro mult_left_mono) simp_all
  moreover have "\<bar>fl64 y * sqrt_2pi\<bar> = \<bar>fl64 y\<bar> * sqrt_2pi"
    using sqrt_2pi_ge_one by (simp add: abs_mult)
  ultimately have "a < \<bar>fl64 y * sqrt_2pi\<bar>" using a(1) by linarith
  then have "\<not> \<bar>fl64 y * sqrt_2pi\<bar> \<le> 1 / 2 ^ 1075" by (simp only: a_def not_le)
  then have "fl64 (fl64 y * sqrt_2pi) \<noteq> 0" by (simp only: fl64_zero_iff) simp
  moreover have "\<not> \<bar>y\<bar> \<le> 1 / 2 ^ 1075" using False by (simp only: fl64_zero_iff) simp
  ultimately show ?thesis by simp
qed

text \<open>
  The divisor is zero for the sigmas of magnitude at most \<open>2 ^ (- 1074)\<close>: zero and the
  smallest subnormal \<^verbatim>\<open>5e-324\<close> of either sign.
\<close>

lemma divisor_is_zero_iff: "divisor_is_zero sigma \<longleftrightarrow> \<bar>sigma\<bar> \<le> 1 / 2 ^ 1074"
proof -
  define a :: real where "a = 1 / 2 ^ 1075"
  have a: "0 < a" "1 / 2 ^ 1074 = 2 * a" by (simp_all add: a_def)
  have "divisor_is_zero sigma \<longleftrightarrow>
      fl64 (fl64 (sigma / 2) * sqrt_2pi) = 0 \<or> fl64 (fl64 sigma * sqrt_2pi) = 0 \<or>
      fl64 (fl64 (2 * sigma) * sqrt_2pi) = 0"
    by (simp add: divisor_is_zero_def cascade_sigmas_def list_ex_iff)
  also have "\<dots> \<longleftrightarrow> \<bar>sigma / 2\<bar> \<le> a \<or> \<bar>sigma\<bar> \<le> a \<or> \<bar>2 * sigma\<bar> \<le> a"
    by (simp only: divisor_zero_iff a_def)
  also have "\<dots> \<longleftrightarrow> \<bar>sigma\<bar> \<le> 2 * a" using a(1) by (auto simp: abs_if split: if_splits)
  finally show ?thesis by (simp only: a(2))
qed

section \<open>The smoother and the device\<close>

text \<open>
  Claim C10. On a host without a CUDA device the construction of a
  \<open>CascadeGaussianSmoothing\<close> fails for every kernel size and every sigma: the constructor
  has no branch on the device. For a kernel size that is not negative and a sigma beyond
  the smallest subnormal the failure is the one of \<^verbatim>\<open>kernel.to('cuda')\<close>; for a
  negative size it is the one of \<^verbatim>\<open>torch.arange\<close>, and for the other sigmas the float
  division by zero. The module's own device on such a host is the CPU.
\<close>

theorem init_needs_cuda:
  "(\<exists>e. CascadeGaussianSmoothing_init False kernel_size sigma = Inl e)
   \<and> (0 \<le> kernel_size \<and> 1 / 2 ^ 1074 < \<bar>sigma\<bar> \<longrightarrow>
        CascadeGaussianSmoothing_init False kernel_size sigma = Inl NoCuda)
   \<and> (0 \<le> kernel_size \<and> \<bar>sigma\<bar> \<le> 1 / 2 ^ 1074 \<longrightarrow>
        CascadeGaussianSmoothing_init False kernel_size sigma = Inl ZeroDivision)
   \<and> (kernel_size < 0 \<longrightarrow>
        CascadeGaussianSmoothing_init False kernel_size sigma = Inl InvalidShape)
   \<and> module_device False = Cpu"
proof -
  define b :: real where "b = 1 / 2 ^ 1074"
  have z: "divisor_is_zero sigma \<longleftrightarrow> \<bar>sigma\<bar> \<le> b"
    unfolding b_def by (rule divisor_is_zero_iff)
  have "(\<exists>e. CascadeGaussianSmoothing_init False kernel_size sigma = Inl e)
   \<and> (0 \<le> kernel_size \<and> b < \<bar>sigma\<bar> \<longrightarrow>
        CascadeGaussianSmoothing_init False kernel_size sigma = Inl NoCuda)
   \<and> (0 \<le> kernel_size \<and> \<bar>sigma\<bar> \<le> b \<longrightarrow>
        CascadeGaussianSmoothing_init False kernel_size sigma = Inl ZeroDivision)
   \<and> (kernel_size < 0 \<longrightarrow>
        CascadeGaussianSmoothing_init False kernel_size sigma = Inl InvalidShape)
   \<and> module_device False = Cpu"
    by (cases "kernel_size < 0"; cases "\<bar>sigma\<bar> \<le> b")
      (simp_all add: CascadeGaussianSmoothing_init_def Let_def module_device_def z)
  then show ?thesis unfolding b_def .
qed

theorem init_needs_cuda_witness:
  "(0::int) \<le> 3 \<and> 1 / 2 ^ 1074 < \<bar>1::real\<bar>
   \<and> CascadeGaussianSmoothing_init False 3 1 = Inl NoCuda
   \<and> \<bar>1 / 2 ^ 1074 :: real\<bar> \<le> 1 / 2 ^ 1074
   \<and> CascadeGaussianSmoothing_init False 3 (1 / 2 ^ 1074) = Inl ZeroDivision
   \<and> (- 1 :: int) < 0
   \<and> CascadeGaussianSmoothing_init False (- 1) 1 = Inl InvalidShape"
proof -
  have h1: "(0::int) \<le> 3" by simp
  have h2: "1 / 2 ^ 1074 < \<bar>1::real\<bar>" by simp
  have h3: "\<bar>1 / 2 ^ 1074 :: real\<bar> \<le> 1 / 2 ^ 1074" by simp
  have h4: "(- 1 :: int) < 0" by simp
  have "0 \<le> (3::int) \<and> 1 / 2 ^ 1074 < \<bar>1::real\<bar> \<longrightarrow>
      CascadeGaussianSmoothing_init False 3 1 = Inl NoCuda"
    using init_needs_cuda [of 3 1] by (elim conjE)
  with h1 h2 have a: "CascadeGaussianSmoothing_init False 3 1 = Inl NoCuda" by (elim impE) (intro conjI)
  have "0 \<le> (3::int) \<and> \<bar>1 / 2 ^ 1074 :: real\<bar> \<le> 1 / 2 ^ 1074 \<longrightarrow>
      CascadeGaussianSmoothing_init False 3 (1 / 2 ^ 1074) = Inl ZeroDivision"
    using init_needs_cuda [of 3 "1 / 2 ^ 1074"] by (elim conjE)
  with h1 h3 have b: "CascadeGaussianSmoothing_init False 3 (1 / 2 ^ 1074) = Inl ZeroDivision"
    by (elim impE) (intro conjI)
  have "(- 1 :: int) < 0 \<longrightarrow> CascadeGaussianSmoothing_init False (- 1) 1 = Inl InvalidShape"
    using init_needs_cuda [of "- 1" 1] by (elim conjE)
  with h4 have c: "CascadeGaussianSmoothing_init False (- 1) 1 = Inl InvalidShape" by (elim impE)
  from h1 h2 a h3 b h4 c show ?thesis by (intro conjI)
qed

section \<open>The extents of the smoothed tensor\<close>

lemma wf_tensor_nth_iff:
  "wf_tensor t \<longleftrightarrow>
     length (elems t) = batch t \<and>
     (\<forall>b < batch t. length (elems t ! b) = chans t \<and>
       (\<forall>c < chans t. length (elems t ! b ! c) = height t \<and>
         (\<forall>h < height t. length (elems t ! b ! c ! h) = width t)))"
  unfolding wf_tensor_def by (simp add: all_set_conv_all_nth cong: conj_cong)

lemma length_reflect_pad: "p < length xs \<Longrightarrow> length (reflect_pad p xs) = length xs + 2 * p"
  by (simp add: reflect_pad_def)

lemma set_tl_subset: "set (tl xs) \<subseteq> set xs"
  by (cases xs) auto

lemma set_reflect_pad: "set (reflect_pad p xs) \<subseteq> set xs"
proof -
  have "set (take p (tl xs)) \<subseteq> set xs"
    using set_take_subset [of p "tl xs"] set_tl_subset [of xs] by blast
  moreover have "set (take p (tl (rev xs))) \<subseteq> set xs"
    using set_take_subset [of p "tl (rev xs)"] set_tl_subset [of "rev xs"] by auto
  ultimately show ?thesis by (auto simp: reflect_pad_def)
qed

lemma pad_reflect_ok:
  assumes wf: "wf_tensor t" and c: "chans t \<noteq> 0" and h: "p < height t" and w: "p < width t"
  defines "t' \<equiv> \<lparr>batch = batch t, chans = chans t,
                height = height t + 2 * p, width = width t + 2 * p,
                elems = map (map (\<lambda>ch. reflect_pad p (map (reflect_pad p) ch))) (elems t)\<rparr>"
  shows "pad_reflect p t = Inr t'" "wf_tensor t'"
proof -
  show "pad_reflect p t = Inr t'"
    using c h w by (simp add: pad_reflect_def t'_def)
  have a: "length (elems t) = batch t"
    and b: "\<And>x. x \<in> set (elems t) \<Longrightarrow> length x = chans t"
    and d: "\<And>x ch. x \<in> set (elems t) \<Longrightarrow> ch \<in> set x \<Longrightarrow> length ch = height t"
    and e: "\<And>x ch r. x \<in> set (elems t) \<Longrightarrow> ch \<in> set x \<Longrightarrow> r \<in> set ch \<Longrightarrow> length r = width t"
    using wf by (auto simp: wf_tensor_def)
  have rows: "length (reflect_pad p (map (reflect_pad p) ch)) = height t + 2 * p"
    if "x \<in> set (elems t)" "ch \<in> set x" for x ch
    using d [OF that] h by (simp add: length_reflect_pad)
  have cols: "length r = width t + 2 * p"
    if "x \<in> set (elems t)" "ch \<in> set x" "r \<in> set (reflect_pad p (map (reflect_pad p) ch))"
    for x ch r
  proof -
    from that(3) have "r \<in> set (map (reflect_pad p) ch)"
      using set_reflect_pad [of p "map (reflect_pad p) ch"] by blast
    then obtain r0 where "r0 \<in> set ch" "r = reflect_pad p r0" by auto
    then show ?thesis using e [OF that(1,2)] w by (simp add: length_reflect_pad)
  qed
  show "wf_tensor t'"
    unfolding wf_tensor_def t'_def using a b rows cols by auto
qed

lemma conv2d_ok:
  assumes "length (elems input) = batch input" "groups \<noteq> 0" "batch weight mod groups = 0"
    "chans input = groups * chans weight"
    "height weight \<le> height input" "width weight \<le> width input"
  shows "\<exists>out. conv2d dev input dev weight groups = Inr out \<and> wf_tensor out \<and>
     batch out = batch input \<and> chans out = batch weight \<and>
     height out = height input - height weight + 1 \<and>
     width out = width input - width weight + 1"
  using assms by (auto simp: conv2d_def wf_tensor_def)

lemma add_tensor_wf:
  assumes "wf_tensor a" "wf_tensor b" "batch b = batch a" "chans b = chans a"
    "height b = height a" "width b = width a"
  shows "wf_tensor (add_tensor a b)" "batch (add_tensor a b) = batch a"
    "chans (add_tensor a b) = chans a" "height (add_tensor a b) = height a"
    "width (add_tensor a b) = width a"
proof -
  show "batch (add_tensor a b) = batch a" "chans (add_tensor a b) = chans a"
    "height (add_tensor a b) = height a" "width (add_tensor a b) = width a"
    by (simp_all add: add_tensor_def)
  from assms(1) have a: "length (elems a) = batch a"
    "\<And>i. i < batch a \<Longrightarrow> length (elems a ! i) = chans a"
    "\<And>i c. i < batch a \<Longrightarrow> c < chans a \<Longrightarrow> length (elems a ! i ! c) = height a"
    "\<And>i c h. i < batch a \<Longrightarrow> c < chans a \<Longrightarrow> h < height a \<Longrightarrow> length (elems a ! i ! c ! h) = width a"
    by (simp_all add: wf_tensor_nth_iff)
  from assms(2-6) have b: "length (elems b) = batch a"
    "\<And>i. i < batch a \<Longrightarrow> length (elems b ! i) = chans a"
    "\<And>i c. i < batch a \<Longrightarrow> c < chans a \<Longrightarrow> length (elems b ! i ! c) = height a"
    "\<And>i c h. i < batch a \<Longrightarrow> c < chans a \<Longrightarrow> h < height a \<Longrightarrow> length (elems b ! i ! c ! h) = width a"
    by (simp_all add: wf_tensor_nth_iff)
  show "wf_tensor (add_tensor a b)"
    unfolding wf_tensor_nth_iff by (simp add: add_tensor_def a b)
qed

lemma init_ok:
  assumes "0 \<le> kernel_size" "\<not> divisor_is_zero sigma"
  shows "\<exists>s. CascadeGaussianSmoothing_init True kernel_size sigma = Inr s \<and>
     pad s = nat (kernel_size div 2) \<and>
     (\<forall>w \<in> {weight1 s, weight2 s, weight3 s}.
        batch w = 3 \<and> chans w = 1 \<and> height w = nat kernel_size \<and> width w = nat kernel_size)"
  using assms by (simp add: CascadeGaussianSmoothing_init_def Let_def prepare_kernel_def cascade_sigmas_def)

lemma forward_ok:
  assumes wf: "wf_tensor input" and c: "chans input = 3"
    and h: "pad s < height input" and w: "pad s < width input"
    and k: "\<forall>w \<in> {weight1 s, weight2 s, weight3 s}.
        batch w = 3 \<and> chans w = 1 \<and> height w = 2 * pad s + 1 \<and> width w = 2 * pad s + 1"
  shows "\<exists>out. forward s Cuda input = Inr out \<and> wf_tensor out \<and> batch out = batch input \<and>
     chans out = 3 \<and> height out = height input \<and> width out = width input"
proof -
  let ?p = "pad s"
  define padded where "padded = \<lparr>batch = batch input, chans = chans input,
                height = height input + 2 * ?p, width = width input + 2 * ?p,
                elems = map (map (\<lambda>ch. reflect_pad ?p (map (reflect_pad ?p) ch))) (elems input)\<rparr>"
  have c0: "chans input \<noteq> 0" using c by simp
  note pr = pad_reflect_ok [OF wf c0 h w, folded padded_def]
  have pd: "batch padded = batch input" "chans padded = 3"
    "height padded = height input + 2 * ?p" "width padded = width input + 2 * ?p"
    by (simp_all add: padded_def c)
  have len: "length (elems padded) = batch padded"
    using pr(2) by (simp add: wf_tensor_def)
  have conv: "\<exists>out. conv2d Cuda padded Cuda wt 3 = Inr out \<and> wf_tensor out \<and>
     batch out = batch input \<and> chans out = 3 \<and>
     height out = height input \<and> width out = width input"
    if "batch wt = 3" "chans wt = 1" "height wt = 2 * ?p + 1" "width wt = 2 * ?p + 1" for wt
  proof -
    have "\<exists>out. conv2d Cuda padded Cuda wt 3 = Inr out \<and> wf_tensor out \<and>
     batch out = batch padded \<and> chans out = batch wt \<and>
     height out = height padded - height wt + 1 \<and>
     width out = width padded - width wt + 1"
      using len that pd h w by (intro conv2d_ok) simp_all
    then show ?thesis using that pd h w by auto
  qed
  have k1: "batch (weight1 s) = 3" "chans (weight1 s) = 1"
      "height (weight1 s) = 2 * ?p + 1" "width (weight1 s) = 2 * ?p + 1"
    and k2: "batch (weight2 s) = 3" "chans (weight2 s) = 1"
      "height (weight2 s) = 2 * ?p + 1" "width (weight2 s) = 2 * ?p + 1"
    and k3: "batch (weight3 s) = 3" "chans (weight3 s) = 1"
      "height (weight3 s) = 2 * ?p + 1" "width (weight3 s) = 2 * ?p + 1"
    using k by simp_all
  from conv [OF k1]
  obtain g1 where g1: "conv2d Cuda padded Cuda (weight1 s) 3 = Inr g1" "wf_tensor g1"
      "batch g1 = batch input" "chans g1 = 3" "height g1 = height input" "width g1 = width input"
    by blast
  from conv [OF k2]
  obtain g2 where g2: "conv2d Cuda padded Cuda (weight2 s) 3 = Inr g2" "wf_tensor g2"
      "batch g2 = batch input" "chans g2 = 3" "height g2 = height input" "width g2 = width input"
    by blast
  from conv [OF k3]
  obtain g3 where g3: "conv2d Cuda padded Cuda (weight3 s) 3 = Inr g3" "wf_tensor g3"
      "batch g3 = batch input" "chans g3 = 3" "height g3 = height input" "width g3 = width input"
    by blast
  have f: "forward s Cuda input = Inr (add_tensor (add_tensor g1 g2) g3)"
    by (simp add: forward_def pr(1) g1(1) g2(1) g3(1))
  have e12: "batch g2 = batch g1" "chans g2 = chans g1" "height g2 = height g1"
      "width g2 = width g1"
    by (simp_all add: g1 g2)
  note a12 = add_tensor_wf [OF g1(2) g2(2) e12]
  have e3: "batch g3 = batch (add_tensor g1 g2)" "chans g3 = chans (add_tensor g1 g2)"
    "height g3 = height (add_tensor g1 g2)" "width g3 = width (add_tensor g1 g2)"
    by (simp_all add: a12 g1 g3)
  note a = add_tensor_wf [OF a12(1) g3(2) e3]
  have "wf_tensor (add_tensor (add_tensor g1 g2) g3)" by (rule a(1))
  moreover have "batch (add_tensor (add_tensor g1 g2) g3) = batch input"
    "chans (add_tensor (add_tensor g1 g2) g3) = 3"
    "height (add_tensor (add_tensor g1 g2) g3) = height input"
    "width (add_tensor (add_tensor g1 g2) g3) = width input"
    by (simp_all only: a a12 g1)
  ultimately show ?thesis using f by blast
qed



lemma conv2d_wrong_device:
  assumes "groups \<noteq> 0" "batch weight mod groups = 0" "chans input = groups * chans weight"
    "height weight \<le> height input" "width weight \<le> width input" "input_device \<noteq> weight_device"
  shows "conv2d input_device input weight_device weight groups = Inl WrongDevice"
  using assms by (simp add: conv2d_def)

lemma forward_small:
  assumes "height input \<le> pad s \<or> width input \<le> pad s"
  shows "forward s input_device input = Inl InvalidShape"
  using assms by (auto simp: forward_def pad_reflect_def)

lemma forward_cpu:
  assumes wf: "wf_tensor input" and c: "chans input = 3"
    and h: "pad s < height input" and w: "pad s < width input"
    and k: "batch (weight1 s) = 3" "chans (weight1 s) = 1"
      "height (weight1 s) = 2 * pad s + 1" "width (weight1 s) = 2 * pad s + 1"
  shows "forward s Cpu input = Inl WrongDevice"
proof -
  let ?p = "pad s"
  define padded where "padded = \<lparr>batch = batch input, chans = chans input,
                height = height input + 2 * ?p, width = width input + 2 * ?p,
                elems = map (map (\<lambda>ch. reflect_pad ?p (map (reflect_pad ?p) ch))) (elems input)\<rparr>"
  have c0: "chans input \<noteq> 0" using c by simp
  note pr = pad_reflect_ok [OF wf c0 h w, folded padded_def]
  have pd: "chans padded = 3"
    "height padded = height input + 2 * ?p" "width padded = width input + 2 * ?p"
    by (simp_all add: padded_def c)
  have "conv2d Cpu padded Cuda (weight1 s) 3 = Inl WrongDevice"
    using k pd h w by (intro conv2d_wrong_device) simp_all
  then show ?thesis by (simp add: forward_def pr(1))
qed

text \<open>
  Claim C6 says that smoothing keeps the spatial extents for every positive sigma and
  every three-channel input. Three inputs on which it returns nothing: an input with one
  row and one column and kernel size 3, where the reflect padding of width 1 is not less
  than the extent; the smallest positive sigma \<^verbatim>\<open>5e-324\<close>, whose half rounds to zero, so
  that the constructor divides by zero; and an input on the CPU, which \<^verbatim>\<open>conv2d\<close> refuses
  next to the weights on \<^verbatim>\<open>cuda\<close>.
\<close>

theorem smooth_failure_counterexample:
  "smooth True 3 1 Cuda \<lparr>batch = 1, chans = 3, height = 1, width = 1,
                          elems = [[[[0]], [[0]], [[0]]]]\<rparr> = Inl InvalidShape
   \<and> smooth True 3 (1 / 2 ^ 1074) Cuda \<lparr>batch = 1, chans = 3, height = 2, width = 2,
        elems = [[[[1, 2], [3, 4]], [[1, 2], [3, 4]], [[1, 2], [3, 4]]]]\<rparr> = Inl ZeroDivision
   \<and> smooth True 3 1 Cpu \<lparr>batch = 1, chans = 3, height = 2, width = 2,
        elems = [[[[1, 2], [3, 4]], [[1, 2], [3, 4]], [[1, 2], [3, 4]]]]\<rparr> = Inl WrongDevice"
proof -
  let ?t = "\<lparr>batch = 1, chans = 3, height = 2, width = 2,
        elems = [[[[1, 2], [3, 4]], [[1, 2], [3, 4]], [[1, 2], [3, 4::real]]]]\<rparr>"
  have z1: "\<not> divisor_is_zero 1" by (simp add: divisor_is_zero_iff)
  have z2: "divisor_is_zero (1 / 2 ^ 1074)" by (simp add: divisor_is_zero_iff)
  obtain s where s: "CascadeGaussianSmoothing_init True 3 1 = Inr s" "pad s = 1"
    "batch (weight1 s) = 3" "chans (weight1 s) = 1" "height (weight1 s) = 3" "width (weight1 s) = 3"
    using init_ok [of 3 1] z1 by auto
  have 1: "smooth True 3 1 Cuda \<lparr>batch = 1, chans = 3, height = 1, width = 1,
                          elems = [[[[0]], [[0]], [[0]]]]\<rparr> = Inl InvalidShape"
    by (simp add: smooth_def s(1) forward_small s(2))
  have 2: "smooth True 3 (1 / 2 ^ 1074) Cuda ?t = Inl ZeroDivision"
    using z2 by (simp add: smooth_def CascadeGaussianSmoothing_init_def Let_def)
  have wf: "wf_tensor ?t" by (simp add: wf_tensor_def)
  have "forward s Cpu ?t = Inl WrongDevice"
    using wf s by (intro forward_cpu) simp_all
  then have 3: "smooth True 3 1 Cpu ?t = Inl WrongDevice" by (simp add: smooth_def s(1))
  from 1 2 3 show ?thesis by (intro conjI)
qed

text \<open>
  Claim C6, amended. On a host with CUDA, for every odd positive kernel size (3, 5, 7 and 9
  among them), every sigma greater than \<open>2 ^ (- 1074)\<close> (the smallest positive
  \<^verbatim>\<open>float\<close>) and every well-formed three-channel input tensor: if height and width are
  both greater than \<open>kernel_size div 2\<close>, smoothing an input on \<^verbatim>\<open>cuda\<close> returns a tensor
  with the batch, channel and spatial extents of the input, and smoothing an input on the
  CPU fails in the convolution; if height or width is at most \<open>kernel_size div 2\<close>, the
  reflect padding fails, on either device.
\<close>

theorem smooth_preserves_extents:
  assumes "odd kernel_size" and "0 < kernel_size" and "1 / 2 ^ 1074 < sigma"
    and "wf_tensor input" and "chans input = 3"
  shows "(kernel_size div 2 < int (height input) \<and> kernel_size div 2 < int (width input) \<longrightarrow>
            (\<exists>out. smooth True kernel_size sigma Cuda input = Inr out \<and> wf_tensor out \<and>
               batch out = batch input \<and> chans out = 3 \<and>
               height out = height input \<and> width out = width input)
            \<and> smooth True kernel_size sigma Cpu input = Inl WrongDevice)
       \<and> (int (height input) \<le> kernel_size div 2 \<or> int (width input) \<le> kernel_size div 2 \<longrightarrow>
            smooth True kernel_size sigma input_device input = Inl InvalidShape)"
proof -
  note k = assms(1,2)
  have "\<not> \<bar>sigma\<bar> \<le> 1 / 2 ^ 1074" using assms(3) by linarith
  then have z: "\<not> divisor_is_zero sigma" by (simp only: divisor_is_zero_iff) simp
  from init_ok [of kernel_size sigma] k z
  obtain s where s: "CascadeGaussianSmoothing_init True kernel_size sigma = Inr s"
    "pad s = nat (kernel_size div 2)"
    "\<forall>w \<in> {weight1 s, weight2 s, weight3 s}.
        batch w = 3 \<and> chans w = 1 \<and> height w = nat kernel_size \<and> width w = nat kernel_size"
    by auto
  have "nat kernel_size = 2 * pad s + 1"
    using k s(2) by (auto elim!: oddE)
  with s(3) have w: "\<forall>w \<in> {weight1 s, weight2 s, weight3 s}.
        batch w = 3 \<and> chans w = 1 \<and> height w = 2 * pad s + 1 \<and> width w = 2 * pad s + 1"
    by simp
  then have w1: "batch (weight1 s) = 3" "chans (weight1 s) = 1"
      "height (weight1 s) = 2 * pad s + 1" "width (weight1 s) = 2 * pad s + 1"
    by simp_all
  have sm: "smooth True kernel_size sigma dev input = forward s dev input" for dev
    by (simp add: smooth_def s(1))
  have good: "(\<exists>out. smooth True kernel_size sigma Cuda input = Inr out \<and> wf_tensor out \<and>
               batch out = batch input \<and> chans out = 3 \<and>
               height out = height input \<and> width out = width input)
            \<and> smooth True kernel_size sigma Cpu input = Inl WrongDevice"
    if "kernel_size div 2 < int (height input) \<and> kernel_size div 2 < int (width input)"
  proof -
    have h: "pad s < height input" "pad s < width input"
      using that s(2) k by linarith+
    from forward_ok [OF assms(4,5) h w] forward_cpu [OF assms(4,5) h w1]
    show ?thesis by (simp only: sm)
  qed
  have small: "smooth True kernel_size sigma input_device input = Inl InvalidShape"
    if "int (height input) \<le> kernel_size div 2 \<or> int (width input) \<le> kernel_size div 2"
  proof -
    have "0 \<le> kernel_size div 2" using k by simp
    then have "height input \<le> pad s \<or> width input \<le> pad s"
      using that s(2) by linarith
    then show ?thesis by (simp only: sm forward_small)
  qed
  from good small show ?thesis by blast
qed

theorem smooth_preserves_extents_witness:
  "odd (3::int) \<and> (0::int) < 3 \<and> 1 / 2 ^ 1074 < (1::real)
   \<and> wf_tensor \<lparr>batch = 1, chans = 3, height = 2, width = 2,
        elems = [[[[1, 2], [3, 4]], [[1, 2], [3, 4]], [[1, 2], [3, 4]]]]\<rparr>
   \<and> (3::int) div 2 < int 2
   \<and> (\<exists>out. smooth True 3 1 Cuda \<lparr>batch = 1, chans = 3, height = 2, width = 2,
        elems = [[[[1, 2], [3, 4]], [[1, 2], [3, 4]], [[1, 2], [3, 4]]]]\<rparr> = Inr out
      \<and> wf_tensor out \<and> height out = 2 \<and> width out = 2)
   \<and> wf_tensor \<lparr>batch = 1, chans = 3, height = 1, width = 1, elems = [[[[0]], [[0]], [[0]]]]\<rparr>
   \<and> int 1 \<le> (3::int) div 2
   \<and> smooth True 3 1 Cuda \<lparr>batch = 1, chans = 3, height = 1, width = 1,
                          elems = [[[[0]], [[0]], [[0]]]]\<rparr> = Inl InvalidShape"
proof -
  let ?t = "\<lparr>batch = 1, chans = 3, height = 2, width = 2,
        elems = [[[[1, 2], [3, 4]], [[1, 2], [3, 4]], [[1, 2], [3, 4::real]]]]\<rparr>"
  let ?u = "\<lparr>batch = 1, chans = 3, height = 1, width = 1, elems = [[[[0]], [[0]], [[0::real]]]]\<rparr>"
  have h1: "odd (3::int)" "(0::int) < 3" by simp_all
  have h2: "1 / 2 ^ 1074 < (1::real)" by simp
  have h3: "wf_tensor ?t" by (simp add: wf_tensor_def)
  have h4: "chans ?t = 3" by simp
  have h5: "(3::int) div 2 < int (height ?t) \<and> (3::int) div 2 < int (width ?t)" by simp
  have u3: "wf_tensor ?u" by (simp add: wf_tensor_def)
  have u4: "chans ?u = 3" by simp
  have u5: "int (height ?u) \<le> (3::int) div 2 \<or> int (width ?u) \<le> (3::int) div 2" by simp
  from smooth_preserves_extents [OF h1 h2 h3 h4, of Cuda] h5
  obtain out where "smooth True 3 1 Cuda ?t = Inr out" "wf_tensor out"
    "height out = height ?t" "width out = width ?t"
    by blast
  then have a: "\<exists>out. smooth True 3 1 Cuda ?t = Inr out \<and> wf_tensor out \<and> height out = 2 \<and> width out = 2"
    by (intro exI [of _ out]) simp
  from smooth_preserves_extents [OF h1 h2 u3 u4, of Cuda] u5
  have b: "smooth True 3 1 Cuda ?u = Inl InvalidShape" by blast
  have c: "(3::int) div 2 < int 2" "int 1 \<le> (3::int) div 2" by simp_all
  from h1 h2 h3 c(1) a u3 c(2) b show ?thesis by (intro conjI)
qed

section \<open>Clipping a tensor object\<close>




section \<open>Which operations write into their argument\<close>




section \<open>The kernels in exact arithmetic\<close>

lemma sum_list_concat_div:
  "sum_list (concat (map (map (\<lambda>x. x / S)) xss)) = sum_list (concat xss) / (S::real)"
proof (induction xss)
  case Nil
  then show ?case by simp
next
  case (Cons xs xss)
  have "sum_list (map (\<lambda>x. x / S) xs) = sum_list xs / S"
    by (induction xs) (simp_all add: add_divide_distrib)
  with Cons show ?case by (simp add: add_divide_distrib)
qed

lemma gaussian_kernel_pos:
  assumes "std \<noteq> 0" "x \<in> set (concat (gaussian_kernel k (std, std)))"
  shows "0 < x"
proof -
  from assms(2) obtain i j where
    x: "x = 1 * gaussian_1d k std i * gaussian_1d k std j"
    by (auto simp: gaussian_kernel_def)
  define c where "c = 1 / (std * sqrt (2 * pi))"
  have c: "c \<noteq> 0" using assms(1) by (simp add: c_def)
  have "x = (c * c) * (exp (- (((real i - (real k - 1) / 2) / std) ^ 2) / 2) *
      exp (- (((real j - (real k - 1) / 2) / std) ^ 2) / 2))"
    by (simp add: x gaussian_1d_def c_def Let_def)
  moreover have "0 < c * c" using c by (cases "0 < c") (auto simp: zero_less_mult_iff)
  ultimately show ?thesis by (simp add: zero_less_mult_iff)
qed

lemma sum_list_pos_real:
  assumes "xs \<noteq> []" "\<forall>x \<in> set xs. 0 < (x::real)"
  shows "0 < sum_list xs"
  using assms by (induction xs) (auto intro: add_pos_nonneg sum_list_nonneg less_imp_le)

text \<open>
  In exact arithmetic every prepared kernel sums to 1: the entries are positive, so the sum
  that divides them is not zero.
\<close>

lemma kernel_sum_exact:
  assumes "0 < k" "std \<noteq> 0"
  shows "sum_list (concat (elems (prepare_kernel k (gaussian_kernel k (std, std))) ! 0 ! 0)) = 1"
proof -
  let ?kern = "gaussian_kernel k (std, std)"
  have "concat ?kern \<noteq> []" using assms(1) by (auto simp: gaussian_kernel_def)
  moreover have "\<forall>x \<in> set (concat ?kern). 0 < x"
    using gaussian_kernel_pos [OF assms(2)] by blast
  ultimately have "0 < sum_list (concat ?kern)" by (rule sum_list_pos_real)
  then show ?thesis
    by (simp add: prepare_kernel_def sum_list_concat_div)
qed



lemma entry_1x1:
  assumes "0 < std" "std \<le> b"
  shows "1 / (9 * b * b) < hd (hd (gaussian_kernel 1 (std, std)))"
proof -
  define c where "c = 1 / (std * sqrt (2 * pi))"
  have b: "0 < b" using assms by linarith
  have "sqrt (2 * pi) < sqrt 9"
    using pi_less_4 by (intro real_sqrt_less_mono) simp
  then have r: "sqrt (2 * pi) < 3" by simp
  have r0: "0 < sqrt (2 * pi)" by simp
  have "std * sqrt (2 * pi) < std * 3" using assms(1) r by simp
  also have "\<dots> \<le> b * 3" using assms(2) by simp
  finally have lt: "std * sqrt (2 * pi) < b * 3" .
  have pos: "0 < std * sqrt (2 * pi)" using assms(1) r0 by simp
  have "1 / (b * 3) < c"
    unfolding c_def using lt pos by (intro divide_strict_left_mono) simp_all
  moreover have p3: "0 < 1 / (b * 3)" using b by simp
  moreover have "0 < c" unfolding c_def using pos by simp
  ultimately have "(1 / (b * 3)) * (1 / (b * 3)) < c * c"
    by (intro mult_strict_mono) simp_all
  moreover have "(1 / (b * 3)) * (1 / (b * 3)) = 1 / (9 * b * b)" by simp
  moreover have "hd (hd (gaussian_kernel 1 (std, std))) = c * c"
    by (simp add: gaussian_kernel_def gaussian_1d_def c_def)
  ultimately show ?thesis by simp
qed

lemma fl64_near:
  assumes "1 / 10 ^ 30 \<le> x" "x \<le> 1"
  shows "99 / 100 * x \<le> fl64 x" "fl64 x \<le> 101 / 100 * x"
proof -
  have x: "0 < x" using assms(1) by (rule less_le_trans [rotated]) simp
  have "(1::real) / 2 ^ 1075 \<le> 1 / 1000 * (1 / 10 ^ 30)" by simp
  also have "\<dots> \<le> 1 / 1000 * x" using assms(1) by (intro mult_left_mono) simp_all
  finally have a: "1 / 2 ^ 1075 \<le> 1 / 1000 * x" .
  have "x / 2 ^ 53 \<le> x / 1000" using x by (intro divide_left_mono) simp_all
  then have b: "\<bar>x\<bar> / 2 ^ 53 \<le> 1 / 1000 * x" using x by simp
  define u where "u = (1::real) / 2 ^ 1075"
  define w where "w = \<bar>x\<bar> / 2 ^ 53"
  have "\<bar>fl64 x - x\<bar> \<le> w + u" unfolding u_def w_def by (rule fl64_err)
  moreover have "u \<le> 1 / 1000 * x" "w \<le> 1 / 1000 * x" using a b by (simp_all only: u_def w_def)
  ultimately have "\<bar>fl64 x - x\<bar> \<le> 2 / 1000 * x" by linarith
  then show "99 / 100 * x \<le> fl64 x" "fl64 x \<le> 101 / 100 * x" using x by linarith+
qed

text \<open>
  Claim C5 says that every kernel of a bank built from an odd positive kernel size and a
  positive sigma sums to 1 within \<open>1e-6\<close>. With kernel size 1 and \<open>sigma = 1e-20\<close> the
  only entry of the first kernel and of the second, before the division by the sum, is
  beyond \<open>2 ^ 128\<close>, above every finite float32 number: in the float32 tensor the entry is
  \<^verbatim>\<open>inf\<close>, the sum is \<^verbatim>\<open>inf\<close>, and their quotient, the kernel, is \<^verbatim>\<open>nan\<close>. The two
  standard deviations are the binary64 numbers the constructor computes; the entry is
  taken in exact arithmetic, about ten times the bound, so that the last bits of the
  binary64 factor do not matter.
\<close>

theorem kernel_entry_beyond_float32:
  "2 ^ 128 < hd (hd (gaussian_kernel 1 (cascade_sigmas (fl64 (1 / 10 ^ 20)) ! 0)))
   \<and> 2 ^ 128 < hd (hd (gaussian_kernel 1 (cascade_sigmas (fl64 (1 / 10 ^ 20)) ! 1)))"
proof -
  define a :: real where "a = 1 / 10 ^ 20"
  have a: "0 < a" "1 / 10 ^ 30 \<le> a" "a \<le> 1" by (simp_all add: a_def)
  note s = fl64_near [OF a(2,3)]
  define s0 where "s0 = fl64 a"
  have s0: "99 / 100 * a \<le> s0" "s0 \<le> 101 / 100 * a" using s by (simp_all only: s0_def)
  have h: "1 / 10 ^ 30 \<le> 1 / 2 * s0" "1 / 2 * s0 \<le> 1"
    using s0 by (simp_all add: a_def)
  have o: "1 / 10 ^ 30 \<le> 1 * s0" "1 * s0 \<le> 1"
    using s0 by (simp_all add: a_def)
  define s1 where "s1 = fl64 (1 / 2 * s0)"
  define s2 where "s2 = fl64 (1 * s0)"
  have s1: "0 < s1" "s1 \<le> 52 / 100 * a"
    using fl64_near [OF h] s0 a(1) unfolding s1_def by linarith+
  have s2: "0 < s2" "s2 \<le> 104 / 100 * a"
    using fl64_near [OF o] s0 a(1) unfolding s2_def by linarith+
  have c: "cascade_sigmas s0 ! 0 = (s1, s1)" "cascade_sigmas s0 ! 1 = (s2, s2)"
    by (simp_all add: cascade_sigmas_def s1_def s2_def)
  have "(2::real) ^ 128 < 1 / (9 * (52 / 100 * a) * (52 / 100 * a))" by (simp add: a_def)
  also have "\<dots> < hd (hd (gaussian_kernel 1 (s1, s1)))" using s1 by (rule entry_1x1)
  finally have 1: "2 ^ 128 < hd (hd (gaussian_kernel 1 (cascade_sigmas s0 ! 0)))"
    by (simp only: c)
  have "(2::real) ^ 128 < 1 / (9 * (104 / 100 * a) * (104 / 100 * a))" by (simp add: a_def)
  also have "\<dots> < hd (hd (gaussian_kernel 1 (s2, s2)))" using s2 by (rule entry_1x1)
  finally have 2: "2 ^ 128 < hd (hd (gaussian_kernel 1 (cascade_sigmas s0 ! 1)))"
    by (simp only: c)
  from 1 2 show ?thesis unfolding s0_def a_def by (intro conjI)
qed

section \<open>The library operations on small inputs\<close>

lemma roll_example: "roll 1 [a, b, c, d] = [d, a, b, c]" "roll (- 1) [a, b, c, d] = [b, c, d, a]"
  "roll 5 [a, b, c, d] = [d, a, b, c]"
  by (simp_all add: roll_def eval_nat_numeral)

lemma reflect_pad_example: "reflect_pad 2 [a, b, c, d] = [c, b, a, b, c, d, c, b]"
  by (simp add: reflect_pad_def eval_nat_numeral)

lemma clamp_example: "clamp 5 (- 2) 2 = 2" "clamp (- 5) (- 2) 2 = - 2" "clamp 1 (- 2) 2 = 1"
  by (simp_all add: clamp_def)

end
